theory Spec2Isabelle
  imports Main "HOL-Library.Word" "HOL-Library.Sublist"
begin

section \<open>Library functions the repository calls\<close>

text \<open>
  The Go standard library is not part of the repository. The handful of functions the
  notification core calls are written out here after their documented behaviour, on
  byte strings (\<^typ>\<open>string\<close> is a list of bytes, as a Go string is).
\<close>

type_synonym uint32 = "32 word"

subsection \<open>Decimal numbers: strconv.FormatUint, strconv.ParseUint, fmt.Sscanf\<close>

definition digit :: "nat \<Rightarrow> char" where
  "digit d = char_of (48 + d)"

definition isDigit :: "char \<Rightarrow> bool" where
  "isDigit c \<longleftrightarrow> 48 \<le> (of_char c :: nat) \<and> (of_char c :: nat) \<le> 57"

definition digitVal :: "char \<Rightarrow> nat" where
  "digitVal c = of_char c - 48"

text \<open>\<^verbatim>\<open>strconv.FormatUint(n, 10)\<close>: the decimal digits of \<open>n\<close>, most significant first.\<close>

function FormatUint :: "nat \<Rightarrow> string" where
  "FormatUint n = (if n < 10 then [digit n] else FormatUint (n div 10) @ [digit (n mod 10)])"
  by pat_completeness auto
termination
  by (relation "measure (\<lambda>n. n)") auto

declare FormatUint.simps [simp del]

text \<open>\<^verbatim>\<open>strconv.FormatInt(i, 10)\<close>, which \<^verbatim>\<open>appendInt\<close> of package time follows too.\<close>

definition FormatInt :: "int \<Rightarrow> string" where
  "FormatInt i = (if i < 0 then CHR ''-'' # FormatUint (nat (- i)) else FormatUint (nat i))"

definition decimalValue :: "string \<Rightarrow> nat" where
  "decimalValue s = foldl (\<lambda>a c. 10 * a + digitVal c) 0 s"

text \<open>
  The errors of the program. \<open>NumError\<close> is strconv's (the text it was given and
  \<^verbatim>\<open>invalid syntax\<close> or \<^verbatim>\<open>value out of range\<close>), \<open>External\<close> is an error
  returned by the mail library or the network, \<open>ScanError\<close> is fmt's, and
  \<open>Errorf\<close> is \<^verbatim>\<open>fmt.Errorf\<close> with its format and the error it wraps.
\<close>

datatype error =
    NumError string string
  | ScanError string
  | External string
  | Errorf string "error option"

text \<open>
  \<^verbatim>\<open>strconv.ParseUint(s, 10, 32)\<close>: one or more decimal digits and nothing else (no
  sign, no underscore in base 10), of a value below \<open>2^32\<close>.
\<close>

definition ParseUint32 :: "string \<Rightarrow> error + uint32" where
  "ParseUint32 s =
     (if s = [] \<or> \<not> list_all isDigit s then Inl (NumError s ''invalid syntax'')
      else if 2 ^ 32 \<le> decimalValue s then Inl (NumError s ''value out of range'')
      else Inr (word_of_nat (decimalValue s)))"

subsection \<open>White space: unicode.IsSpace on UTF-8 bytes\<close>

text \<open>
  The UTF-8 encodings of the code points for which \<^verbatim>\<open>unicode.IsSpace\<close> holds:
  U+0009 to U+000D, U+0020, U+0085, U+00A0, U+1680, U+2000 to U+200A, U+2028, U+2029,
  U+202F, U+205F and U+3000. None of them starts with a continuation byte, so looking
  for one at every byte position finds the same white space as Go's decoding rune by
  rune does.
\<close>

definition White_Space :: "string list" where
  "White_Space =
     [[CHR 0x09], [CHR 0x0A], [CHR 0x0B], [CHR 0x0C], [CHR 0x0D], [CHR 0x20],
      [CHR 0xC2, CHR 0x85], [CHR 0xC2, CHR 0xA0],
      [CHR 0xE1, CHR 0x9A, CHR 0x80],
      [CHR 0xE2, CHR 0x80, CHR 0x80], [CHR 0xE2, CHR 0x80, CHR 0x81],
      [CHR 0xE2, CHR 0x80, CHR 0x82], [CHR 0xE2, CHR 0x80, CHR 0x83],
      [CHR 0xE2, CHR 0x80, CHR 0x84], [CHR 0xE2, CHR 0x80, CHR 0x85],
      [CHR 0xE2, CHR 0x80, CHR 0x86], [CHR 0xE2, CHR 0x80, CHR 0x87],
      [CHR 0xE2, CHR 0x80, CHR 0x88], [CHR 0xE2, CHR 0x80, CHR 0x89],
      [CHR 0xE2, CHR 0x80, CHR 0x8A],
      [CHR 0xE2, CHR 0x80, CHR 0xA8], [CHR 0xE2, CHR 0x80, CHR 0xA9],
      [CHR 0xE2, CHR 0x80, CHR 0xAF],
      [CHR 0xE2, CHR 0x81, CHR 0x9F],
      [CHR 0xE3, CHR 0x80, CHR 0x80]]"

text \<open>The width in bytes of the white space rune at the start (at the end) of \<open>s\<close>; 0 when there is none.\<close>

definition spaceLen :: "string \<Rightarrow> nat" where
  "spaceLen s = (case find (\<lambda>p. prefix p s) White_Space of Some p \<Rightarrow> length p | None \<Rightarrow> 0)"

definition spaceLenLast :: "string \<Rightarrow> nat" where
  "spaceLenLast s = (case find (\<lambda>p. suffix p s) White_Space of Some p \<Rightarrow> length p | None \<Rightarrow> 0)"

lemma spaceLen_Nil: "spaceLen [] = 0"
  by (simp add: spaceLen_def White_Space_def)

lemma spaceLenLast_Nil: "spaceLenLast [] = 0"
  by (simp add: spaceLenLast_def White_Space_def)

lemma spaceLen_pos_shorter: "0 < spaceLen s \<Longrightarrow> length s - spaceLen s < length s"
  by (cases s) (simp_all add: spaceLen_Nil)

lemma spaceLenLast_pos_shorter: "0 < spaceLenLast s \<Longrightarrow> length s - spaceLenLast s < length s"
  by (cases s) (simp_all add: spaceLenLast_Nil)

text \<open>
  \<^verbatim>\<open>fmt.Sscanf(s, "%d", &v)\<close> with \<open>v\<close> a \<^verbatim>\<open>uint32\<close>: white space before the
  number is skipped, but a newline there is an error; the number is the longest run of
  digits and underscores, handed to \<^verbatim>\<open>strconv.ParseUint(tok, 10, 64)\<close> and then
  checked to fit 32 bits; what follows the number is not looked at. On an error nothing
  is stored in \<open>v\<close>.
\<close>

function SkipSpace :: "string \<Rightarrow> error + string" where
  "SkipSpace s =
     (if s \<noteq> [] \<and> hd s = CHR 0x0A then Inl (ScanError ''unexpected newline'')
      else if 0 < spaceLen s then SkipSpace (drop (spaceLen s) s)
      else Inr s)"
  by pat_completeness auto
termination
  by (relation "measure length") (auto simp: spaceLen_pos_shorter)

declare SkipSpace.simps [simp del]

definition Sscanf_d_uint32 :: "string \<Rightarrow> error + uint32" where
  "Sscanf_d_uint32 s =
     (case SkipSpace s of
        Inl e \<Rightarrow> Inl e
      | Inr r \<Rightarrow>
          (let tok = takeWhile (\<lambda>c. isDigit c \<or> c = CHR ''_'') r in
           if r = [] then Inl (ScanError ''unexpected EOF'')
           else if tok = [] then Inl (ScanError ''expected integer'')
           else if \<not> list_all isDigit tok then Inl (NumError tok ''invalid syntax'')
           else if 2 ^ 64 \<le> decimalValue tok then Inl (NumError tok ''value out of range'')
           else if 2 ^ 32 \<le> decimalValue tok then Inl (ScanError ''unsigned integer overflow'')
           else Inr (word_of_nat (decimalValue tok))))"

subsection \<open>strings.TrimSpace, strings.Fields, strings.Join\<close>

function TrimLeftSpace :: "string \<Rightarrow> string" where
  "TrimLeftSpace s = (if 0 < spaceLen s then TrimLeftSpace (drop (spaceLen s) s) else s)"
  by pat_completeness auto
termination
  by (relation "measure length") (auto simp: spaceLen_pos_shorter)

function TrimRightSpace :: "string \<Rightarrow> string" where
  "TrimRightSpace s =
     (if 0 < spaceLenLast s then TrimRightSpace (take (length s - spaceLenLast s) s) else s)"
  by pat_completeness auto
termination
  by (relation "measure length") (auto simp: spaceLenLast_pos_shorter)

declare TrimLeftSpace.simps [simp del] TrimRightSpace.simps [simp del]

definition TrimSpace :: "string \<Rightarrow> string" where
  "TrimSpace s = TrimRightSpace (TrimLeftSpace s)"

text \<open>
  \<^verbatim>\<open>strings.Fields\<close>: the maximal runs of bytes between white space, in order; no
  field is empty. \<open>cur\<close> is the field being read.
\<close>

function FieldsFrom :: "string \<Rightarrow> string \<Rightarrow> string list" where
  "FieldsFrom cur s =
     (if s = [] then (if cur = [] then [] else [cur])
      else if 0 < spaceLen s
        then (if cur = [] then [] else [cur]) @ FieldsFrom [] (drop (spaceLen s) s)
      else FieldsFrom (cur @ [hd s]) (tl s))"
  by pat_completeness auto
termination
  by (relation "measure (\<lambda>(cur, s). length s)") (auto simp: spaceLen_pos_shorter)

declare FieldsFrom.simps [simp del]

definition Fields :: "string \<Rightarrow> string list" where
  "Fields s = FieldsFrom [] s"

fun Join :: "string list \<Rightarrow> string \<Rightarrow> string" where
  "Join [] sep = []"
| "Join [x] sep = x"
| "Join (x # y # ys) sep = x @ sep @ Join (y # ys) sep"

section \<open>imap.go: the preview of a message body\<close>

datatype panic = Panic string

text \<open>
  \<^verbatim>\<open>GetEmailPreview(body string, maxLen int)\<close>. \<^verbatim>\<open>len\<close> counts bytes and
  \<^verbatim>\<open>body[:maxLen]\<close> cuts at a byte; with \<open>maxLen\<close> negative the slice expression
  panics.
\<close>

definition GetEmailPreview :: "string \<Rightarrow> int \<Rightarrow> panic + string" where
  "GetEmailPreview body maxLen =
     (let body1 = TrimSpace body;
          body2 = Join (Fields body1) '' ''
      in if int (length body2) \<le> maxLen then Inr body2
         else if maxLen < 0 then Inl (Panic ''slice bounds out of range'')
         else Inr (take (nat maxLen) body2 @ ''...''))"


section \<open>The mail server, as the process sees it\<close>

text \<open>
  \<^verbatim>\<open>time.Time\<close>, read as the calendar date and clock it shows in its own location,
  with the location's offset east of UTC in seconds. \<open>zeroTime\<close> is \<^verbatim>\<open>time.Time{}\<close>.
\<close>

record Time =
  year :: int
  month :: nat
  day :: nat
  hour :: nat
  minute :: nat
  second :: nat
  offset :: int

definition zeroTime :: Time where
  "zeroTime = \<lparr>year = 1, month = 1, day = 1, hour = 0, minute = 0, second = 0, offset = 0\<rparr>"

definition appendInt :: "int \<Rightarrow> nat \<Rightarrow> string" where
  "appendInt x width =
     (let ds = FormatUint (nat \<bar>x\<bar>)
      in (if x < 0 then ''-'' else []) @ replicate (width - length ds) (CHR ''0'') @ ds)"

text \<open>\<^verbatim>\<open>t.Format(time.RFC3339)\<close>, the layout \<^verbatim>\<open>2006-01-02T15:04:05Z07:00\<close>.\<close>

definition Format_RFC3339 :: "Time \<Rightarrow> string" where
  "Format_RFC3339 t =
     appendInt (year t) 4 @ ''-'' @ appendInt (int (month t)) 2 @ ''-'' @ appendInt (int (day t)) 2 @
     ''T'' @ appendInt (int (hour t)) 2 @ '':'' @ appendInt (int (minute t)) 2 @ '':'' @
     appendInt (int (second t)) 2 @
     (if offset t = 0 then ''Z''
      else (let zone = \<bar>offset t\<bar> div 60
            in (if offset t \<le> - 60 then ''-'' else ''+'') @
               appendInt (zone div 60) 2 @ '':'' @ appendInt (zone mod 60) 2))"

text \<open>What the mail library (go-imap) hands back: addresses, envelopes, fetched messages.\<close>

record Address =
  Name :: string
  Mailbox :: string
  Host :: string

definition Addr :: "Address \<Rightarrow> string" where
  "Addr a = (if Mailbox a = [] \<or> Host a = [] then [] else Mailbox a @ ''@'' @ Host a)"

record Envelope =
  env_Date :: Time
  env_Subject :: string
  env_From :: "Address list"
  env_To :: "Address list"
  env_Cc :: "Address list"

definition FlagSeen :: string where
  "FlagSeen = CHR 0x5C # ''Seen''"

text \<open>
  A fetched message. \<open>FindBodySection\<close> is what \<^verbatim>\<open>msg.FindBodySection\<close> returns
  for the whole body (\<open>None\<close> for nil), \<open>BodySection\<close> the bytes of the body sections
  that came with the message.
\<close>

record FetchMessageBuffer =
  UID :: uint32
  Flags :: "string list"
  Envelope :: "Envelope option"
  FindBodySection :: "string option"
  BodySection :: "string option list"

record SelectData =
  NumMessages :: uint32
  UIDNext :: uint32

text \<open>
  One connection to the server: how dialling and logging in end, and what the server
  answers to the one SELECT, FETCH or STORE the program sends on it. Nothing is assumed
  about the answers: a FETCH may return any messages in any order. Every operation of
  the program opens a connection of its own, so the server is a sequence of such
  connections and the number of those used up.
\<close>

record Session =
  dial :: "error option"
  login :: "error option"
  select :: "error + SelectData"
  fetch :: "error + FetchMessageBuffer list"
  store :: "error option"

record Server =
  sessions :: "nat \<Rightarrow> Session"
  conns :: nat

section \<open>imap.go: the operations on the mailbox\<close>

record Email =
  ID :: string
  From :: string
  Subject :: string
  Date :: Time
  Read :: bool

record AttachmentInfo =
  att_Index :: int
  att_Filename :: string
  att_ContentType :: string
  att_Size :: uint32

record EmailDetail =
  det_ID :: string
  det_From :: string
  det_To :: "string list"
  det_CC :: "string list"
  det_Subject :: string
  det_Date :: Time
  Body :: string
  ContentType :: string
  det_Read :: bool
  Attachments :: "AttachmentInfo list"

definition Connect :: "Server \<Rightarrow> Server \<times> (error + Session)" where
  "Connect srv =
     (let client = sessions srv (conns srv);
          srv' = srv\<lparr>conns := conns srv + 1\<rparr>
      in case dial client of
           Some err \<Rightarrow> (srv', Inl (Errorf ''failed to connect to IMAP server: %w'' (Some err)))
         | None \<Rightarrow>
             (case login client of
                Some err \<Rightarrow> (srv', Inl (Errorf ''failed to login: %w'' (Some err)))
              | None \<Rightarrow> (srv', Inr client)))"

definition isRead :: "FetchMessageBuffer \<Rightarrow> bool" where
  "isRead msg = (FlagSeen \<in> set (Flags msg))"

definition fromOf :: "FetchMessageBuffer \<Rightarrow> string" where
  "fromOf msg =
     (case Envelope msg of
        None \<Rightarrow> []
      | Some env \<Rightarrow>
          (case env_From env of
             [] \<Rightarrow> []
           | addr # _ \<Rightarrow>
               (if Name addr \<noteq> [] then Name addr @ '' <'' @ Addr addr @ ''>'' else Addr addr)))"

text \<open>The \<^verbatim>\<open>Email\<close> that the loops of \<^verbatim>\<open>GetInbox\<close> and \<^verbatim>\<open>GetEmailsSinceUID\<close> build from a message.\<close>

definition emailOf :: "FetchMessageBuffer \<Rightarrow> Email" where
  "emailOf msg =
     \<lparr>ID = FormatUint (unat (UID msg)),
      From = fromOf msg,
      Subject = (case Envelope msg of None \<Rightarrow> [] | Some env \<Rightarrow> env_Subject env),
      Date = (case Envelope msg of None \<Rightarrow> zeroTime | Some env \<Rightarrow> env_Date env),
      Read = isRead msg\<rparr>"

text \<open>\<^verbatim>\<open>GetLatestUID\<close> returns a pair as in Go: the UID (0 with an error) and the error.\<close>

definition GetLatestUID :: "Server \<Rightarrow> Server \<times> uint32 \<times> error option" where
  "GetLatestUID srv =
     (case Connect srv of
        (srv', Inl err) \<Rightarrow> (srv', 0, Some err)
      | (srv', Inr client) \<Rightarrow>
          (case select client of
             Inl err \<Rightarrow> (srv', 0, Some (Errorf ''failed to select INBOX: %w'' (Some err)))
           | Inr mbox \<Rightarrow>
               if NumMessages mbox = 0 then (srv', 0, None)
               else (case fetch client of
                       Inl err \<Rightarrow> (srv', 0, Some (Errorf ''failed to fetch latest message: %w'' (Some err)))
                     | Inr [] \<Rightarrow> (srv', 0, None)
                     | Inr (msg # _) \<Rightarrow> (srv', UID msg, None))))"

text \<open>The loop of \<^verbatim>\<open>GetEmailsSinceUID\<close> over the fetched messages, in the order they came.\<close>

fun emailsSince :: "uint32 \<Rightarrow> FetchMessageBuffer list \<Rightarrow> Email list" where
  "emailsSince sinceUID [] = []"
| "emailsSince sinceUID (msg # messages) =
     (if UID msg \<le> sinceUID then emailsSince sinceUID messages
      else emailOf msg # emailsSince sinceUID messages)"

definition GetEmailsSinceUID :: "Server \<Rightarrow> uint32 \<Rightarrow> Server \<times> (error + Email list)" where
  "GetEmailsSinceUID srv sinceUID =
     (case Connect srv of
        (srv', Inl err) \<Rightarrow> (srv', Inl err)
      | (srv', Inr client) \<Rightarrow>
          (case select client of
             Inl err \<Rightarrow> (srv', Inl (Errorf ''failed to select INBOX: %w'' (Some err)))
           | Inr mbox \<Rightarrow>
               if UIDNext mbox \<le> sinceUID + 1 then (srv', Inr [])
               else (case fetch client of
                       Inl err \<Rightarrow> (srv', Inl (Errorf ''failed to fetch messages: %w'' (Some err)))
                     | Inr messages \<Rightarrow> (srv', Inr (emailsSince sinceUID messages)))))"

text \<open>
  \<^verbatim>\<open>parseEmailBodyWithGoMessage\<close> is MIME parsing by the go-message library; the
  operations that need it take it as the parameter \<open>parseBody\<close>, from the raw bytes to
  the body, its content type and the attachments.
\<close>

type_synonym parser = "string \<Rightarrow> string \<times> string \<times> AttachmentInfo list"

definition GetEmailContents :: "parser \<Rightarrow> Server \<Rightarrow> string \<Rightarrow> Server \<times> (error + EmailDetail)" where
  "GetEmailContents parseBody srv emailID =
     (case ParseUint32 emailID of
        Inl err \<Rightarrow> (srv, Inl (Errorf ''invalid email ID: %w'' (Some err)))
      | Inr uid \<Rightarrow>
     (case Connect srv of
        (srv', Inl err) \<Rightarrow> (srv', Inl err)
      | (srv', Inr client) \<Rightarrow>
     (case select client of
        Inl err \<Rightarrow> (srv', Inl (Errorf ''failed to select INBOX: %w'' (Some err)))
      | Inr mbox \<Rightarrow>
     (case fetch client of
        Inl err \<Rightarrow> (srv', Inl (Errorf ''failed to fetch message: %w'' (Some err)))
      | Inr [] \<Rightarrow> (srv', Inl (Errorf ''email not found'' None))
      | Inr (msg # _) \<Rightarrow>
          (let rawBody = (case FindBodySection msg of
                            Some data \<Rightarrow> Some data
                          | None \<Rightarrow> (case BodySection msg of [] \<Rightarrow> None | b # _ \<Rightarrow> b));
               (body, contentType, attachments) =
                 (case rawBody of None \<Rightarrow> ([], ''text/plain'', []) | Some raw \<Rightarrow> parseBody raw)
           in (srv', Inr
                \<lparr>det_ID = emailID,
                 det_From = fromOf msg,
                 det_To = (case Envelope msg of None \<Rightarrow> [] | Some env \<Rightarrow> map Addr (env_To env)),
                 det_CC = (case Envelope msg of None \<Rightarrow> [] | Some env \<Rightarrow> map Addr (env_Cc env)),
                 det_Subject = (case Envelope msg of None \<Rightarrow> [] | Some env \<Rightarrow> env_Subject env),
                 det_Date = (case Envelope msg of None \<Rightarrow> zeroTime | Some env \<Rightarrow> env_Date env),
                 Body = body,
                 ContentType = contentType,
                 det_Read = isRead msg,
                 Attachments = attachments\<rparr>))))))"

definition MarkAsRead :: "Server \<Rightarrow> string \<Rightarrow> Server \<times> error option" where
  "MarkAsRead srv emailID =
     (case ParseUint32 emailID of
        Inl err \<Rightarrow> (srv, Some (Errorf ''invalid email ID: %w'' (Some err)))
      | Inr uid \<Rightarrow>
     (case Connect srv of
        (srv', Inl err) \<Rightarrow> (srv', Some err)
      | (srv', Inr client) \<Rightarrow>
     (case select client of
        Inl err \<Rightarrow> (srv', Some (Errorf ''failed to select INBOX: %w'' (Some err)))
      | Inr mbox \<Rightarrow>
     (case store client of
        Some err \<Rightarrow> (srv', Some (Errorf ''failed to mark email as read: %w'' (Some err)))
      | None \<Rightarrow> (srv', None)))))"


text \<open>
  \<^verbatim>\<open>GetInbox\<close>. The sequence numbers it asks for (the last \<open>limit\<close> messages) do
  not appear here, since the answer of the server to the FETCH is not constrained.
\<close>

fun inboxEmails :: "bool \<Rightarrow> FetchMessageBuffer list \<Rightarrow> Email list" where
  "inboxEmails unreadOnly [] = []"
| "inboxEmails unreadOnly (msg # messages) =
     (if unreadOnly \<and> isRead msg then inboxEmails unreadOnly messages
      else emailOf msg # inboxEmails unreadOnly messages)"

definition GetInbox :: "Server \<Rightarrow> int \<Rightarrow> bool \<Rightarrow> Server \<times> (error + Email list)" where
  "GetInbox srv limit unreadOnly =
     (case Connect srv of
        (srv', Inl err) \<Rightarrow> (srv', Inl err)
      | (srv', Inr client) \<Rightarrow>
          (case select client of
             Inl err \<Rightarrow> (srv', Inl (Errorf ''failed to select INBOX: %w'' (Some err)))
           | Inr mbox \<Rightarrow>
               if NumMessages mbox = 0 then (srv', Inr [])
               else (case fetch client of
                       Inl err \<Rightarrow> (srv', Inl (Errorf ''failed to fetch messages: %w'' (Some err)))
                     | Inr messages \<Rightarrow> (srv', Inr (rev (inboxEmails unreadOnly messages))))))"

section \<open>handlers.go: the notification checker\<close>

text \<open>
  What the program does to the outside is kept in the \<open>World\<close>: the connections to the
  mail server, the lines written with package log (the format and its arguments, as
  the call has them), and the notifications handed to
  \<^verbatim>\<open>SendNotificationToAllClients\<close>, each in order. \<open>calls\<close> is not a variable of
  the program: it records every entry into \<open>Start\<close> and \<open>Stop\<close>, so that they can be
  counted.
\<close>

datatype log_arg = S string | D int | V error | Dur "64 word"

datatype log_line = Printf string "log_arg list" | Println string

record Notification =
  methodName :: string
  params :: "string \<rightharpoonup> string"

datatype call = CallStart | CallStop

record World =
  server :: Server
  logs :: "log_line list"
  sent :: "Notification list"
  calls :: "call list"

text \<open>
  A context is cancelled or not. The goroutine that \<open>Start\<close> launches is \<open>Spawned\<close>
  with the interval for its ticker and whether its context is cancelled; once it has
  created the ticker it is \<open>Ticking\<close>; \<open>NoGoroutine\<close> before the first start and
  after the goroutine has returned. \<open>Start\<close> launches a goroutine only with
  \<open>running\<close> false, and only a returning goroutine sets \<open>running\<close> to false, so
  there is at most one, and \<open>cancelFunc\<close>, when set, cancels the context of that one.
\<close>

datatype Context = Context (cancelled: bool)

datatype goroutine = NoGoroutine | Spawned "64 word" bool | Ticking "64 word" bool

datatype Broadcaster = MCPServer

text \<open>
  \<^verbatim>\<open>EmailNotificationChecker\<close>. Of the configuration only
  \<^verbatim>\<open>Notifications.CheckIntervalSeconds\<close> is read (a Go \<^verbatim>\<open>int\<close>, 64 bits);
  \<open>broadcaster\<close> is \<open>None\<close> for nil, \<open>cancelFunc\<close> is true when the field is not nil.
  The IMAP client of the checker is the \<open>server\<close> of the world.
\<close>

record EmailNotificationChecker =
  CheckIntervalSeconds :: "64 word"
  lastUID :: uint32
  broadcaster :: "Broadcaster option"
  running :: bool
  cancelFunc :: bool
  ctx :: "Context option"
  loop :: goroutine

text \<open>
  \<open>broadcasts\<close> says whether the MCP server value has the method
  \<^verbatim>\<open>SendNotificationToAllClients\<close>, that is whether the type assertion succeeds.
\<close>

definition NewEmailNotificationChecker :: "64 word \<Rightarrow> bool \<Rightarrow> EmailNotificationChecker" where
  "NewEmailNotificationChecker seconds broadcasts =
     \<lparr>CheckIntervalSeconds = seconds,
      lastUID = 0,
      broadcaster = (if broadcasts then Some MCPServer else None),
      running = False,
      cancelFunc = False,
      ctx = None,
      loop = NoGoroutine\<rparr>"

definition SetContext :: "EmailNotificationChecker \<Rightarrow> Context \<Rightarrow> EmailNotificationChecker" where
  "SetContext c parent = c\<lparr>ctx := Some parent\<rparr>"

definition log :: "log_line \<Rightarrow> World \<Rightarrow> World" where
  "log l w = w\<lparr>logs := logs w @ [l]\<rparr>"

definition Second :: "64 word" where
  "Second = 1000000000"

definition Start :: "World \<Rightarrow> EmailNotificationChecker \<Rightarrow> World \<times> EmailNotificationChecker" where
  "Start w0 c =
     (let w = w0\<lparr>calls := calls w0 @ [CallStart]\<rparr>
      in if broadcaster c = None
           then (log (Println ''Warning: Server does not support SendNotificationToAllClients, notifications disabled'') w, c)
         else if running c then (w, c)
         else if running c then (w, c)
         else
           (let (srv', uid, err) = GetLatestUID (server w);
                w1 = w\<lparr>server := srv'\<rparr>;
                (w2, lastUID') =
                  (case err of
                     Some e \<Rightarrow> (log (Printf ''Warning: Could not get initial email UID: %v'' [V e]) w1, 0)
                   | None \<Rightarrow> (w1, uid));
                parentCtx = (case ctx c of None \<Rightarrow> Context False | Some parent \<Rightarrow> parent);
                interval = CheckIntervalSeconds c * Second
            in (w2, c\<lparr>lastUID := lastUID', cancelFunc := True, running := True,
                       loop := Spawned interval (cancelled parentCtx)\<rparr>)))"

fun cancel :: "goroutine \<Rightarrow> goroutine" where
  "cancel NoGoroutine = NoGoroutine"
| "cancel (Spawned d _) = Spawned d True"
| "cancel (Ticking d _) = Ticking d True"

definition Stop :: "World \<Rightarrow> EmailNotificationChecker \<Rightarrow> World \<times> EmailNotificationChecker" where
  "Stop w0 c =
     (let w = w0\<lparr>calls := calls w0 @ [CallStop]\<rparr>
      in if cancelFunc c then (w, c\<lparr>loop := cancel (loop c), cancelFunc := False\<rparr>) else (w, c))"

definition IsRunning :: "EmailNotificationChecker \<Rightarrow> bool" where
  "IsRunning c = running c"

text \<open>The parameters of the notification for \<open>email\<close>, as the map literal has them.\<close>

definition notificationParams :: "Email \<Rightarrow> string \<Rightarrow> (string \<rightharpoonup> string)" where
  "notificationParams email preview =
     [''title'' \<mapsto> ''New Email Received. From: '' @ From email @ '', Subject: '' @ Subject email,
      ''email_id'' \<mapsto> ID email,
      ''from'' \<mapsto> From email,
      ''subject'' \<mapsto> Subject email,
      ''received_at'' \<mapsto> Format_RFC3339 (Date email),
      ''preview'' \<mapsto> preview]"

text \<open>
  The body of the loop of \<^verbatim>\<open>checkForNewEmails\<close>, for one new message. A call
  through a nil \<open>broadcaster\<close> panics.
\<close>

definition notifyEmail ::
  "parser \<Rightarrow> Email \<Rightarrow> World \<times> EmailNotificationChecker \<Rightarrow> panic + World \<times> EmailNotificationChecker" where
  "notifyEmail parseBody email s =
     (case s of (w, c) \<Rightarrow>
        (let emailUID = (case Sscanf_d_uint32 (ID email) of Inr u \<Rightarrow> u | Inl _ \<Rightarrow> 0);
             c1 = (if emailUID > lastUID c then c\<lparr>lastUID := emailUID\<rparr> else c);
             (srv', detail) = GetEmailContents parseBody (server w) (ID email);
             w1 = w\<lparr>server := srv'\<rparr>
         in case (case detail of Inl err \<Rightarrow> Inr [] | Inr d \<Rightarrow> GetEmailPreview (Body d) 100) of
              Inl p \<Rightarrow> Inl p
            | Inr preview \<Rightarrow>
                (let w2 = log (Printf ''New email received: ID=%s From=%s Subject=%s''
                                 [S (ID email), S (From email), S (Subject email)]) w1
                 in case broadcaster c1 of
                      None \<Rightarrow> Inl (Panic ''invalid memory address or nil pointer dereference'')
                    | Some b \<Rightarrow>
                        Inr (w2\<lparr>sent := sent w2 @
                                  [\<lparr>methodName = ''new_email'', params = notificationParams email preview\<rparr>]\<rparr>,
                             c1))))"

fun notifyAll ::
  "parser \<Rightarrow> Email list \<Rightarrow> World \<times> EmailNotificationChecker \<Rightarrow> panic + World \<times> EmailNotificationChecker" where
  "notifyAll parseBody [] s = Inr s"
| "notifyAll parseBody (email # newEmails) s =
     (case notifyEmail parseBody email s of
        Inl p \<Rightarrow> Inl p
      | Inr s' \<Rightarrow> notifyAll parseBody newEmails s')"

definition checkForNewEmails ::
  "parser \<Rightarrow> World \<times> EmailNotificationChecker \<Rightarrow> panic + World \<times> EmailNotificationChecker" where
  "checkForNewEmails parseBody s =
     (case s of (w, c) \<Rightarrow>
        (let currentLastUID = lastUID c;
             w1 = log (Printf ''Checking for new emails (since UID: %d)...'' [D (uint currentLastUID)]) w;
             (srv', r) = GetEmailsSinceUID (server w1) currentLastUID;
             w2 = w1\<lparr>server := srv'\<rparr>
         in case r of
              Inl err \<Rightarrow> Inr (log (Printf ''Error checking for new emails: %v'' [V err]) w2, c)
            | Inr newEmails \<Rightarrow>
                notifyAll parseBody newEmails
                  (log (Printf ''Check complete: found %d new email(s)'' [D (int (length newEmails))]) w2, c)))"

text \<open>
  The goroutine, one step at a time: it creates its ticker (\<^verbatim>\<open>time.NewTicker\<close>
  panics unless the interval is positive), then each tick runs one check, and when it
  finds its context cancelled it returns, which sets \<open>running\<close> to false. A step taken
  in a state where the goroutine cannot take it changes nothing.
\<close>

definition loopEnter ::
  "World \<times> EmailNotificationChecker \<Rightarrow> panic + World \<times> EmailNotificationChecker" where
  "loopEnter s =
     (case s of (w, c) \<Rightarrow>
        (case loop c of
           Spawned interval cd \<Rightarrow>
             (let w1 = log (Printf ''Email notification checker started (interval: %v)'' [Dur interval]) w
              in if sint interval \<le> 0 then Inl (Panic ''non-positive interval for NewTicker'')
                 else Inr (w1, c\<lparr>loop := Ticking interval cd\<rparr>))
         | _ \<Rightarrow> Inr s))"

definition loopTick ::
  "parser \<Rightarrow> World \<times> EmailNotificationChecker \<Rightarrow> panic + World \<times> EmailNotificationChecker" where
  "loopTick parseBody s =
     (case s of (w, c) \<Rightarrow>
        (case loop c of
           Ticking interval cd \<Rightarrow> checkForNewEmails parseBody s
         | _ \<Rightarrow> Inr s))"

definition loopDone ::
  "World \<times> EmailNotificationChecker \<Rightarrow> World \<times> EmailNotificationChecker" where
  "loopDone s =
     (case s of (w, c) \<Rightarrow>
        (case loop c of
           Ticking interval True \<Rightarrow>
             (log (Println ''Email notification checker stopped'') w,
              c\<lparr>loop := NoGoroutine, running := False\<rparr>)
         | _ \<Rightarrow> s))"

text \<open>A number of poll cycles, one after the other; a panic ends them.\<close>

fun pollCycles ::
  "parser \<Rightarrow> nat \<Rightarrow> World \<times> EmailNotificationChecker \<Rightarrow> panic + World \<times> EmailNotificationChecker" where
  "pollCycles parseBody 0 s = Inr s"
| "pollCycles parseBody (Suc n) s =
     (case checkForNewEmails parseBody s of
        Inl p \<Rightarrow> Inl p
      | Inr s' \<Rightarrow> pollCycles parseBody n s')"

section \<open>handlers.go: the client tracker\<close>

text \<open>\<^verbatim>\<open>clientCount\<close> is an \<^verbatim>\<open>atomic.Int32\<close>: 32 bits, read as a signed number.\<close>

record ClientTracker =
  clientCount :: "32 word"
  checker :: "EmailNotificationChecker option"

definition NewClientTracker :: "EmailNotificationChecker option \<Rightarrow> ClientTracker" where
  "NewClientTracker c = \<lparr>clientCount = 0, checker = c\<rparr>"

definition OnClientConnected :: "World \<times> ClientTracker \<Rightarrow> World \<times> ClientTracker" where
  "OnClientConnected s =
     (case s of (w, t) \<Rightarrow>
        (let count = clientCount t + 1;
             t1 = t\<lparr>clientCount := count\<rparr>;
             w1 = log (Printf ''Client connected (total: %d)'' [D (sint count)]) w
         in case checker t1 of
              Some c \<Rightarrow>
                if count = 1 then (case Start w1 c of (w2, c') \<Rightarrow> (w2, t1\<lparr>checker := Some c'\<rparr>))
                else (w1, t1)
            | None \<Rightarrow> (w1, t1)))"

definition OnClientDisconnected :: "World \<times> ClientTracker \<Rightarrow> World \<times> ClientTracker" where
  "OnClientDisconnected s =
     (case s of (w, t) \<Rightarrow>
        (let count = clientCount t - 1;
             t1 = t\<lparr>clientCount := count\<rparr>;
             w1 = log (Printf ''Client disconnected (total: %d)'' [D (sint count)]) w
         in case checker t1 of
              Some c \<Rightarrow>
                if count = 0 then (case Stop w1 c of (w2, c') \<Rightarrow> (w2, t1\<lparr>checker := Some c'\<rparr>))
                else (w1, t1)
            | None \<Rightarrow> (w1, t1)))"

definition GetClientCount :: "ClientTracker \<Rightarrow> int" where
  "GetClientCount t = sint (clientCount t)"

text \<open>
  The session hooks of \<^verbatim>\<open>CreateSessionHooks\<close>: a session registered is a client
  connected, a session unregistered a client disconnected.
\<close>

datatype event = RegisterSession | UnregisterSession

fun sessionHooks :: "event list \<Rightarrow> World \<times> ClientTracker \<Rightarrow> World \<times> ClientTracker" where
  "sessionHooks [] s = s"
| "sessionHooks (RegisterSession # es) s = sessionHooks es (OnClientConnected s)"
| "sessionHooks (UnregisterSession # es) s = sessionHooks es (OnClientDisconnected s)"

definition StartEmailNotificationChecker ::
  "Context \<Rightarrow> bool \<Rightarrow> 64 word \<Rightarrow> World \<Rightarrow> World \<times> EmailNotificationChecker" where
  "StartEmailNotificationChecker parent broadcasts seconds w =
     Start w (SetContext (NewEmailNotificationChecker seconds broadcasts) parent)"

definition SetupHTTPNotificationChecker ::
  "Context \<Rightarrow> bool \<Rightarrow> 64 word \<Rightarrow> EmailNotificationChecker \<times> ClientTracker" where
  "SetupHTTPNotificationChecker parent broadcasts seconds =
     (let c = SetContext (NewEmailNotificationChecker seconds broadcasts) parent
      in (c, NewClientTracker (Some c)))"


section \<open>What a poll cycle sends, in closed form\<close>

text \<open>
  For the proofs: the preview that the loop of \<open>checkForNewEmails\<close> computes for one
  message on a given state of the server, the notifications it sends for a list of
  messages (each message uses up one connection), the log lines it writes, and the
  watermark it ends with.
\<close>

definition previewOf :: "parser \<Rightarrow> Server \<Rightarrow> Email \<Rightarrow> string" where
  "previewOf parseBody srv email =
     (case snd (GetEmailContents parseBody srv (ID email)) of
        Inl err \<Rightarrow> []
      | Inr d \<Rightarrow> (case GetEmailPreview (Body d) 100 of Inr preview \<Rightarrow> preview | Inl p \<Rightarrow> []))"

fun notificationsFor :: "parser \<Rightarrow> Server \<Rightarrow> Email list \<Rightarrow> Notification list" where
  "notificationsFor parseBody srv [] = []"
| "notificationsFor parseBody srv (email # emails) =
     \<lparr>methodName = ''new_email'', params = notificationParams email (previewOf parseBody srv email)\<rparr> #
     notificationsFor parseBody (srv\<lparr>conns := Suc (conns srv)\<rparr>) emails"

definition newEmailLog :: "Email \<Rightarrow> log_line" where
  "newEmailLog email =
     Printf ''New email received: ID=%s From=%s Subject=%s''
       [S (ID email), S (From email), S (Subject email)]"

definition scannedUID :: "Email \<Rightarrow> uint32" where
  "scannedUID email = (case Sscanf_d_uint32 (ID email) of Inr u \<Rightarrow> u | Inl err \<Rightarrow> 0)"

fun watermarkAfter :: "uint32 \<Rightarrow> Email list \<Rightarrow> uint32" where
  "watermarkAfter l [] = l"
| "watermarkAfter l (email # emails) = watermarkAfter (max l (scannedUID email)) emails"

text \<open>An identifier that \<open>GetEmailContents\<close> can parse, as those made by \<open>emailOf\<close> are.\<close>

definition validID :: "Email \<Rightarrow> bool" where
  "validID email \<longleftrightarrow> (\<exists>u. ParseUint32 (ID email) = Inr u)"

text \<open>The messages the server returns to the FETCH of the next connection, if any.\<close>

definition nextFetch :: "Server \<Rightarrow> FetchMessageBuffer list" where
  "nextFetch srv = (case fetch (sessions srv (conns srv)) of Inl err \<Rightarrow> [] | Inr messages \<Rightarrow> messages)"

section \<open>Concrete inputs\<close>

text \<open>
  Inputs on which the theorems below are evaluated: a message from Ann with a given
  UID, a connection on which everything succeeds and the FETCH returns the given
  messages, a connection that cannot be dialled, and the world in which the server's
  connections are the listed ones, in order (dialling fails once they are used up).
\<close>

definition exampleMessage :: "uint32 \<Rightarrow> FetchMessageBuffer" where
  "exampleMessage u =
     \<lparr>UID = u,
      Flags = [],
      Envelope = Some
        \<lparr>env_Date = \<lparr>year = 2024, month = 3, day = 9, hour = 7, minute = 5, second = 0, offset = 3600\<rparr>,
         env_Subject = ''Hello'',
         env_From = [\<lparr>Name = ''Ann'', Mailbox = ''ann'', Host = ''example.org''\<rparr>],
         env_To = [],
         env_Cc = []\<rparr>,
      FindBodySection = Some ''  Dear   Bob '',
      BodySection = []\<rparr>"

definition goodSession :: "uint32 \<Rightarrow> FetchMessageBuffer list \<Rightarrow> Session" where
  "goodSession uidNext messages =
     \<lparr>dial = None, login = None,
      select = Inr \<lparr>NumMessages = word_of_nat (length messages), UIDNext = uidNext\<rparr>,
      fetch = Inr messages, store = None\<rparr>"

definition deadSession :: Session where
  "deadSession =
     \<lparr>dial = Some (External ''connection refused''), login = None,
      select = Inl (External ''not connected''), fetch = Inl (External ''not connected''),
      store = Some (External ''not connected'')\<rparr>"

definition worldOf :: "Session list \<Rightarrow> World" where
  "worldOf ss =
     \<lparr>server = \<lparr>sessions = (\<lambda>n. if n < length ss then ss ! n else deadSession), conns = 0\<rparr>,
      logs = [], sent = [], calls = []\<rparr>"

text \<open>
  A world for two poll cycles, and a checker with a broadcaster and the watermark 13.
  The first cycle's FETCH returns the messages 15 and 14, in that order; the body of 15
  is then fetched on a connection that works, the body of 14 on one that cannot be
  dialled; the second cycle finds nothing new. In \<open>sortedWorld\<close> the FETCH returns 14
  before 15.
\<close>

definition exampleWorld :: World where
  "exampleWorld =
     worldOf [goodSession 16 [exampleMessage 15, exampleMessage 14],
              goodSession 16 [exampleMessage 15], deadSession, goodSession 16 []]"

definition sortedWorld :: World where
  "sortedWorld =
     worldOf [goodSession 16 [exampleMessage 14, exampleMessage 15],
              goodSession 16 [exampleMessage 14], goodSession 16 [exampleMessage 15]]"

definition exampleChecker :: EmailNotificationChecker where
  "exampleChecker = (NewEmailNotificationChecker 30 True)\<lparr>lastUID := 13\<rparr>"

definition plainText :: parser where
  "plainText raw = (raw, ''text/plain'', [])"

section \<open>Facts about the library functions\<close>

subsection \<open>A UID written by FormatUint is read back by ParseUint and by Sscanf\<close>

lemma digitVal_digit: "d < 10 \<Longrightarrow> digitVal (digit d) = d"
  by (simp add: digitVal_def digit_def)

lemma isDigit_digit: "d < 10 \<Longrightarrow> isDigit (digit d)"
  by (simp add: isDigit_def digit_def)

lemma decimalValue_snoc: "decimalValue (s @ [c]) = 10 * decimalValue s + digitVal c"
  by (simp add: decimalValue_def)

lemma FormatUint_nonempty: "FormatUint n \<noteq> []"
  by (subst FormatUint.simps) simp

lemma FormatUint_digits: "list_all isDigit (FormatUint n)"
proof (induction n rule: FormatUint.induct)
  case (1 n)
  show ?case
  proof (cases "n < 10")
    case True
    then show ?thesis by (subst FormatUint.simps) (simp add: isDigit_digit)
  next
    case False
    with 1 show ?thesis by (subst FormatUint.simps) (simp add: isDigit_digit)
  qed
qed

lemma decimalValue_FormatUint: "decimalValue (FormatUint n) = n"
proof (induction n rule: FormatUint.induct)
  case (1 n)
  show ?case
  proof (cases "n < 10")
    case True
    then show ?thesis
      by (subst FormatUint.simps) (simp add: decimalValue_def digitVal_digit)
  next
    case False
    with 1 show ?thesis
      by (subst FormatUint.simps) (simp add: decimalValue_snoc digitVal_digit)
  qed
qed

lemma unat_uint32_lt: "unat (u :: uint32) < 4294967296"
  using unsigned_less [of u] by simp

lemma unat_uint32_less: "\<not> 2 ^ 32 \<le> unat (u :: uint32)"
proof -
  have "(2::nat) ^ 32 = 4294967296" by simp
  then show ?thesis using unat_uint32_lt [of u] by (simp only: not_le)
qed

lemma unat_uint32_less64: "\<not> 2 ^ 64 \<le> unat (u :: uint32)"
proof -
  have "(2::nat) ^ 64 = 18446744073709551616" by simp
  moreover have "unat u < 18446744073709551616"
    using unat_uint32_lt [of u] by (rule less_trans) simp
  ultimately show ?thesis by (simp only: not_le)
qed

lemma word_of_nat_unat32: "word_of_nat (unat (u :: uint32)) = u"
  by (simp only: of_nat_unat ucast_id)

lemma ParseUint32_FormatUint: "ParseUint32 (FormatUint (unat (u :: uint32))) = Inr u"
  unfolding ParseUint32_def
  by (simp only: FormatUint_nonempty FormatUint_digits decimalValue_FormatUint
        unat_uint32_less word_of_nat_unat32 simp_thms if_False)

lemma White_Space_hd: "p \<in> set White_Space \<Longrightarrow> p \<noteq> [] \<and> \<not> isDigit (hd p)"
  unfolding White_Space_def isDigit_def by auto

lemma spaceLen_digit:
  assumes "isDigit c"
  shows "spaceLen (c # cs) = 0"
proof -
  have "\<not> prefix p (c # cs)" if "p \<in> set White_Space" for p
  proof
    assume pre: "prefix p (c # cs)"
    from White_Space_hd [OF that] obtain x xs where p: "p = x # xs" and x: "\<not> isDigit x"
      by (cases p) auto
    from pre p have "x = c" by simp
    with x assms show False by simp
  qed
  then have "find (\<lambda>p. prefix p (c # cs)) White_Space = None"
    by (simp add: find_None_iff)
  then show ?thesis by (simp add: spaceLen_def)
qed

lemma SkipSpace_digit: "isDigit c \<Longrightarrow> SkipSpace (c # cs) = Inr (c # cs)"
  by (subst SkipSpace.simps) (auto simp: spaceLen_digit isDigit_def)

lemma takeWhile_all: "list_all P xs \<Longrightarrow> takeWhile (\<lambda>c. P c \<or> Q c) xs = xs"
  by (induction xs) auto

lemma Sscanf_FormatUint: "Sscanf_d_uint32 (FormatUint (unat (u :: uint32))) = Inr u"
proof -
  obtain c cs where s: "FormatUint (unat u) = c # cs"
    using FormatUint_nonempty [of "unat u"] by (cases "FormatUint (unat u)") auto
  have ds: "list_all isDigit (c # cs)" using FormatUint_digits [of "unat u"] s by simp
  then have "isDigit c" by simp
  then have skip: "SkipSpace (c # cs) = Inr (c # cs)" by (rule SkipSpace_digit)
  have tok: "takeWhile (\<lambda>c. isDigit c \<or> c = CHR ''_'') (c # cs) = c # cs"
    using ds by (rule takeWhile_all)
  have val: "decimalValue (c # cs) = unat u"
    using decimalValue_FormatUint [of "unat u"] s by simp
  have ne: "c # cs \<noteq> []" by simp
  show ?thesis
    unfolding Sscanf_d_uint32_def s skip
    by (simp only: sum.case tok Let_def val ds unat_uint32_less unat_uint32_less64 ne
          if_False simp_thms word_of_nat_unat32)
qed

lemma FormatUint_inj:
  assumes "FormatUint (unat (u :: uint32)) = FormatUint (unat (v :: uint32))"
  shows "u = v"
proof -
  from assms have "ParseUint32 (FormatUint (unat u)) = ParseUint32 (FormatUint (unat v))"
    by (rule arg_cong)
  then have "(Inr u :: error + uint32) = Inr v"
    by (simp only: ParseUint32_FormatUint)
  then show ?thesis by (simp only: sum.inject)
qed

section \<open>The preview of a message body\<close>

lemma GetEmailPreview_nonneg:
  "0 \<le> maxLen \<Longrightarrow> GetEmailPreview body maxLen =
     Inr (let n = Join (Fields (TrimSpace body)) '' ''
          in if int (length n) \<le> maxLen then n else take (nat maxLen) n @ ''...'')"
  by (simp add: GetEmailPreview_def Let_def)

lemma cut_length:
  assumes "0 \<le> (m::int)"
  shows "int (length (if int (length n) \<le> m then n else take (nat m) n @ ''...'')) \<le> m + 3"
proof (cases "int (length n) \<le> m")
  case True
  then show ?thesis by simp
next
  case False
  have "length (take (nat m) n @ ''...'') = min (length n) (nat m) + 3" by simp
  with False assms show ?thesis by (simp only: if_False)
qed

lemma GetEmailPreview_splits_rune:
  "GetEmailPreview [CHR 0xC3, CHR 0xA9] 1 = Inr (CHR 0xC3 # ''...'')"
  by code_simp

text \<open>
  Claim C10. For every body and every \<open>maxLen\<close> that is not negative,
  \<open>GetEmailPreview\<close> returns (it does not panic); with \<open>n\<close> the body after
  \<^verbatim>\<open>TrimSpace\<close>, \<^verbatim>\<open>Fields\<close> and \<^verbatim>\<open>Join\<close> with one space, the result is
  \<open>n\<close> itself when \<open>n\<close> has at most \<open>maxLen\<close> bytes and otherwise the first
  \<open>maxLen\<close> bytes of \<open>n\<close> followed by three dots, so it is never longer than
  \<open>maxLen + 3\<close> bytes. The cut is at a byte: of the two bytes C3 A9 that encode one
  character, a preview of length 1 keeps the first alone.
\<close>

theorem GetEmailPreview_spec:
  assumes "0 \<le> maxLen"
  shows "\<exists>r. GetEmailPreview body maxLen = Inr r \<and>
           r = (let n = Join (Fields (TrimSpace body)) '' ''
                in if int (length n) \<le> maxLen then n else take (nat maxLen) n @ ''...'') \<and>
           int (length r) \<le> maxLen + 3 \<and>
           GetEmailPreview [CHR 0xC3, CHR 0xA9] 1 = Inr (CHR 0xC3 # ''...'')"
proof (intro exI conjI)
  show "GetEmailPreview body maxLen =
     Inr (let n = Join (Fields (TrimSpace body)) '' ''
          in if int (length n) \<le> maxLen then n else take (nat maxLen) n @ ''...'')"
    using assms by (rule GetEmailPreview_nonneg)
  show "(let n = Join (Fields (TrimSpace body)) '' ''
          in if int (length n) \<le> maxLen then n else take (nat maxLen) n @ ''...'') =
        (let n = Join (Fields (TrimSpace body)) '' ''
          in if int (length n) \<le> maxLen then n else take (nat maxLen) n @ ''...'')"
    by (rule refl)
  show "int (length (let n = Join (Fields (TrimSpace body)) '' ''
          in if int (length n) \<le> maxLen then n else take (nat maxLen) n @ ''...'')) \<le> maxLen + 3"
    unfolding Let_def using assms by (rule cut_length)
  show "GetEmailPreview [CHR 0xC3, CHR 0xA9] 1 = Inr (CHR 0xC3 # ''...'')"
    by (rule GetEmailPreview_splits_rune)
qed

theorem GetEmailPreview_spec_witness:
  "(0::int) \<le> 8 \<and> GetEmailPreview ''  hello   world  '' 8 = Inr ''hello wo...'' \<and>
   int (length ''hello wo...'') \<le> 8 + 3"
proof -
  have h: "(0::int) \<le> 8" by simp
  have e: "GetEmailPreview ''  hello   world  '' 8 = Inr ''hello wo...''" by code_simp
  from GetEmailPreview_spec [OF h, of "''  hello   world  ''"]
  have "\<exists>r. Inr ''hello wo...'' = (Inr r :: panic + string) \<and> int (length r) \<le> 8 + 3"
    unfolding e by (elim exE conjE, intro exI conjI)
  then have "int (length ''hello wo...'') \<le> 8 + 3"
    by (elim exE conjE) (simp only: sum.inject)
  with h e show ?thesis by (intro conjI)
qed

section \<open>Starting the checker\<close>

lemmas example_defs = worldOf_def goodSession_def deadSession_def exampleMessage_def plainText_def







text \<open>
  Claim C9. A checker constructed for a server without the broadcast method has no
  broadcaster, and \<open>Start\<close> leaves it as it was: not running, no goroutine (so no
  step of the loop does anything, no ticker, no poll), the watermark still the zero it
  was constructed with. The only effect is the warning in the log; no connection to
  the mail server is used, so \<open>GetInbox\<close>, \<open>GetEmailContents\<close> and \<open>MarkAsRead\<close>
  give afterwards what they would have given before.
\<close>

theorem Start_without_broadcaster:
  "case Start w (SetContext (NewEmailNotificationChecker seconds False) parent) of
     (w', c') \<Rightarrow>
       c' = SetContext (NewEmailNotificationChecker seconds False) parent \<and>
       \<not> IsRunning c' \<and> loop c' = NoGoroutine \<and> lastUID c' = 0 \<and>
       loopEnter (w', c') = Inr (w', c') \<and> loopTick parseBody (w', c') = Inr (w', c') \<and>
       loopDone (w', c') = (w', c') \<and>
       logs w' = logs w @
         [Println ''Warning: Server does not support SendNotificationToAllClients, notifications disabled''] \<and>
       sent w' = sent w \<and> server w' = server w \<and>
       GetInbox (server w') limit unreadOnly = GetInbox (server w) limit unreadOnly \<and>
       GetEmailContents parseBody (server w') emailID = GetEmailContents parseBody (server w) emailID \<and>
       MarkAsRead (server w') emailID = MarkAsRead (server w) emailID"
  by (simp add: Start_def SetContext_def NewEmailNotificationChecker_def log_def IsRunning_def
        loopEnter_def loopTick_def loopDone_def)

section \<open>A poll cycle that cannot fetch\<close>

text \<open>
  Claim C7. When \<open>GetEmailsSinceUID\<close> returns an error, \<open>checkForNewEmails\<close> logs
  it and returns: the checker, and with it the watermark, is unchanged, and no
  notification is sent. The next cycle therefore asks again from the same watermark.
\<close>

theorem checkForNewEmails_fetch_error:
  assumes "snd (GetEmailsSinceUID (server w) (lastUID c)) = Inl err"
  shows "\<exists>w'. checkForNewEmails parseBody (w, c) = Inr (w', c) \<and>
           sent w' = sent w \<and>
           logs w' = logs w @
             [Printf ''Checking for new emails (since UID: %d)...'' [D (uint (lastUID c))],
              Printf ''Error checking for new emails: %v'' [V err]]"
  using assms
  by (cases "GetEmailsSinceUID (server w) (lastUID c)")
     (simp add: checkForNewEmails_def log_def)

theorem checkForNewEmails_fetch_error_witness:
  "snd (GetEmailsSinceUID (server (worldOf [])) (lastUID ((NewEmailNotificationChecker 30 True)\<lparr>lastUID := 13\<rparr>))) =
     Inl (Errorf ''failed to connect to IMAP server: %w'' (Some (External ''connection refused''))) \<and>
   (\<exists>w'. checkForNewEmails plainText (worldOf [], (NewEmailNotificationChecker 30 True)\<lparr>lastUID := 13\<rparr>) =
            Inr (w', (NewEmailNotificationChecker 30 True)\<lparr>lastUID := 13\<rparr>) \<and>
          sent w' = [] \<and>
          logs w' =
            [Printf ''Checking for new emails (since UID: %d)...'' [D 13],
             Printf ''Error checking for new emails: %v''
               [V (Errorf ''failed to connect to IMAP server: %w'' (Some (External ''connection refused'')))]])"
proof -
  let ?c = "(NewEmailNotificationChecker 30 True)\<lparr>lastUID := 13\<rparr>"
  let ?err = "Errorf ''failed to connect to IMAP server: %w'' (Some (External ''connection refused''))"
  have h: "snd (GetEmailsSinceUID (server (worldOf [])) (lastUID ?c)) = Inl ?err"
    by (simp add: GetEmailsSinceUID_def Connect_def example_defs)
  have l: "lastUID ?c = 13" by simp
  have s: "sent (worldOf []) = []" and g: "logs (worldOf []) = []" by (simp_all add: worldOf_def)
  from checkForNewEmails_fetch_error [OF h, of plainText] h show ?thesis
    unfolding l s g by simp
qed

section \<open>Facts about a poll cycle\<close>

lemma Connect_server: "fst (Connect srv) = srv\<lparr>conns := Suc (conns srv)\<rparr>"
  by (simp add: Connect_def Let_def split: option.splits)

lemma GetEmailContents_server:
  "ParseUint32 emailID = Inr u \<Longrightarrow>
   fst (GetEmailContents parseBody srv emailID) = srv\<lparr>conns := Suc (conns srv)\<rparr>"
  using Connect_server [of srv]
  by (cases "Connect srv")
     (simp add: GetEmailContents_def Let_def split: sum.splits list.splits prod.splits option.splits)

lemma GetEmailsSinceUID_server:
  "fst (GetEmailsSinceUID srv sinceUID) = srv\<lparr>conns := Suc (conns srv)\<rparr>"
  using Connect_server [of srv]
  by (cases "Connect srv") (simp add: GetEmailsSinceUID_def split: sum.splits)

lemma emailsSince_filter:
  "emailsSince sinceUID messages = map emailOf (filter (\<lambda>msg. sinceUID < UID msg) messages)"
  by (induction messages) (auto simp: not_le)

lemma GetEmailsSinceUID_result:
  assumes "snd (GetEmailsSinceUID srv sinceUID) = Inr newEmails"
  shows "newEmails = [] \<or> newEmails = emailsSince sinceUID (nextFetch srv)"
  using assms
  by (cases "Connect srv")
     (auto simp: GetEmailsSinceUID_def nextFetch_def Connect_def Let_def
           split: sum.splits option.splits if_splits)

lemma GetEmailPreview_100: "\<exists>preview. GetEmailPreview body 100 = Inr preview"
  by (simp add: GetEmailPreview_nonneg)

lemma notifyEmail_eq:
  assumes "broadcaster c = Some b" and "ParseUint32 (ID email) = Inr u"
  shows "notifyEmail parseBody email (w, c) =
     Inr (w\<lparr>server := (server w)\<lparr>conns := Suc (conns (server w))\<rparr>,
            logs := logs w @ [newEmailLog email],
            sent := sent w @
              [\<lparr>methodName = ''new_email'',
                params = notificationParams email (previewOf parseBody (server w) email)\<rparr>]\<rparr>,
          c\<lparr>lastUID := max (lastUID c) (scannedUID email)\<rparr>)"
proof -
  obtain srv' detail where g: "GetEmailContents parseBody (server w) (ID email) = (srv', detail)"
    by (cases "GetEmailContents parseBody (server w) (ID email)") auto
  have srv': "srv' = (server w)\<lparr>conns := Suc (conns (server w))\<rparr>"
    using GetEmailContents_server [OF assms(2), of parseBody "server w"] g by simp
  have m: "(if lastUID c < scannedUID email then c\<lparr>lastUID := scannedUID email\<rparr> else c) =
           c\<lparr>lastUID := max (lastUID c) (scannedUID email)\<rparr>"
    by (simp add: max_def not_less)
  show ?thesis
  proof (cases detail)
    case (Inl err)
    then show ?thesis
      using assms(1) g srv' m
      by (simp add: notifyEmail_def previewOf_def newEmailLog_def scannedUID_def log_def Let_def)
  next
    case (Inr d)
    obtain preview where p: "GetEmailPreview (Body d) 100 = Inr preview"
      using GetEmailPreview_100 by blast
    with Inr show ?thesis
      using assms(1) g srv' m
      by (simp add: notifyEmail_def previewOf_def newEmailLog_def scannedUID_def log_def Let_def)
  qed
qed


lemma notifyAll_eq:
  assumes "broadcaster c = Some b" and "list_all validID emails"
  shows "notifyAll parseBody emails (w, c) =
     Inr (w\<lparr>server := (server w)\<lparr>conns := conns (server w) + length emails\<rparr>,
            logs := logs w @ map newEmailLog emails,
            sent := sent w @ notificationsFor parseBody (server w) emails\<rparr>,
          c\<lparr>lastUID := watermarkAfter (lastUID c) emails\<rparr>)"
  using assms
proof (induction emails arbitrary: w c)
  case Nil
  then show ?case by simp
next
  case (Cons email emails)
  from Cons.prems(2) obtain u where u: "ParseUint32 (ID email) = Inr u"
    by (auto simp: validID_def)
  from Cons.prems(2) have rest: "list_all validID emails" by simp
  let ?w1 = "w\<lparr>server := (server w)\<lparr>conns := Suc (conns (server w))\<rparr>,
            logs := logs w @ [newEmailLog email],
            sent := sent w @
              [\<lparr>methodName = ''new_email'',
                params = notificationParams email (previewOf parseBody (server w) email)\<rparr>]\<rparr>"
  let ?c1 = "c\<lparr>lastUID := max (lastUID c) (scannedUID email)\<rparr>"
  have b1: "broadcaster ?c1 = Some b" using Cons.prems(1) by simp
  have step: "notifyEmail parseBody email (w, c) = Inr (?w1, ?c1)"
    by (rule notifyEmail_eq [OF Cons.prems(1) u])
  show ?case
    by (simp add: step Cons.IH [OF b1 rest])
qed

lemma emailOf_validID: "validID (emailOf msg)"
  by (simp add: validID_def emailOf_def ParseUint32_FormatUint)

lemma emailsSince_validID: "list_all validID (emailsSince sinceUID messages)"
  by (induction messages) (simp_all add: emailOf_validID)

lemma GetEmailsSinceUID_validID:
  assumes "snd (GetEmailsSinceUID srv sinceUID) = Inr newEmails"
  shows "list_all validID newEmails"
  using GetEmailsSinceUID_result [OF assms] emailsSince_validID [of sinceUID "nextFetch srv"]
  by auto

lemma checkForNewEmails_eq:
  assumes "broadcaster c = Some b"
    and "snd (GetEmailsSinceUID (server w) (lastUID c)) = Inr newEmails"
  shows "checkForNewEmails parseBody (w, c) =
     Inr (w\<lparr>server := (server w)\<lparr>conns := Suc (conns (server w)) + length newEmails\<rparr>,
            logs := logs w @
              [Printf ''Checking for new emails (since UID: %d)...'' [D (uint (lastUID c))],
               Printf ''Check complete: found %d new email(s)'' [D (int (length newEmails))]] @
              map newEmailLog newEmails,
            sent := sent w @
              notificationsFor parseBody ((server w)\<lparr>conns := Suc (conns (server w))\<rparr>) newEmails\<rparr>,
          c\<lparr>lastUID := watermarkAfter (lastUID c) newEmails\<rparr>)"
proof -
  have g: "GetEmailsSinceUID (server w) (lastUID c) =
      ((server w)\<lparr>conns := Suc (conns (server w))\<rparr>, Inr newEmails)"
    using GetEmailsSinceUID_server [of "server w" "lastUID c"] assms(2)
    by (cases "GetEmailsSinceUID (server w) (lastUID c)") simp
  have v: "list_all validID newEmails"
    by (rule GetEmailsSinceUID_validID [OF assms(2)])
  show ?thesis
    by (simp add: checkForNewEmails_def log_def g Let_def notifyAll_eq [OF assms(1) v])
qed

lemma checkForNewEmails_error_eq:
  assumes "snd (GetEmailsSinceUID (server w) (lastUID c)) = Inl err"
  shows "checkForNewEmails parseBody (w, c) =
     Inr (w\<lparr>server := (server w)\<lparr>conns := Suc (conns (server w))\<rparr>,
            logs := logs w @
              [Printf ''Checking for new emails (since UID: %d)...'' [D (uint (lastUID c))],
               Printf ''Error checking for new emails: %v'' [V err]]\<rparr>,
          c)"
proof -
  have g: "GetEmailsSinceUID (server w) (lastUID c) =
      ((server w)\<lparr>conns := Suc (conns (server w))\<rparr>, Inl err)"
    using GetEmailsSinceUID_server [of "server w" "lastUID c"] assms
    by (cases "GetEmailsSinceUID (server w) (lastUID c)") simp
  show ?thesis
    by (simp add: checkForNewEmails_def log_def g Let_def)
qed

lemma watermarkAfter_mono: "l \<le> watermarkAfter l emails"
proof (induction emails arbitrary: l)
  case Nil
  show ?case by simp
next
  case (Cons email emails)
  have "l \<le> max l (scannedUID email)" by simp
  also have "\<dots> \<le> watermarkAfter (max l (scannedUID email)) emails" by (rule Cons.IH)
  finally show ?case by simp
qed

lemma length_notificationsFor: "length (notificationsFor parseBody srv emails) = length emails"
  by (induction emails arbitrary: srv) simp_all

lemma nth_notificationsFor:
  "k < length emails \<Longrightarrow>
   notificationsFor parseBody srv emails ! k =
     \<lparr>methodName = ''new_email'',
      params = notificationParams (emails ! k)
                 (previewOf parseBody (srv\<lparr>conns := conns srv + k\<rparr>) (emails ! k))\<rparr>"
proof (induction emails arbitrary: srv k)
  case Nil
  then show ?case by simp
next
  case (Cons email emails)
  show ?case
  proof (cases k)
    case 0
    then show ?thesis by simp
  next
    case (Suc j)
    with Cons.prems have "j < length emails" by simp
    from Cons.IH [OF this, of "srv\<lparr>conns := Suc (conns srv)\<rparr>"] Suc
    show ?thesis by simp
  qed
qed

lemma email_ids_notificationsFor:
  "map (\<lambda>n. params n ''email_id'') (notificationsFor parseBody srv emails) =
   map (\<lambda>email. Some (ID email)) emails"
  by (induction emails arbitrary: srv) (simp_all add: notificationParams_def)

lemma dom_notificationParams:
  "dom (notificationParams email preview) =
     {''title'', ''email_id'', ''from'', ''subject'', ''received_at'', ''preview''}"
  by (auto simp: notificationParams_def)

lemma scannedUID_emailOf: "scannedUID (emailOf msg) = UID msg"
  by (simp add: scannedUID_def emailOf_def Sscanf_FormatUint)

lemma checkForNewEmails_total:
  assumes "broadcaster c = Some b"
  shows "\<exists>w' c'. checkForNewEmails parseBody (w, c) = Inr (w', c') \<and>
           broadcaster c' = Some b \<and> lastUID c \<le> lastUID c'"
proof (cases "snd (GetEmailsSinceUID (server w) (lastUID c))")
  case (Inl err)
  from checkForNewEmails_error_eq [OF this, of parseBody] assms show ?thesis by simp
next
  case (Inr newEmails)
  from checkForNewEmails_eq [OF assms this, of parseBody] assms show ?thesis
    by (simp add: watermarkAfter_mono)
qed

lemma pollCycles_total:
  assumes "broadcaster c = Some b"
  shows "\<exists>w' c'. pollCycles parseBody n (w, c) = Inr (w', c') \<and>
           broadcaster c' = Some b \<and> lastUID c \<le> lastUID c'"
  using assms
proof (induction n arbitrary: w c)
  case 0
  then show ?case by simp
next
  case (Suc n)
  from checkForNewEmails_total [OF Suc.prems, of parseBody w]
  obtain w1 c1 where s: "checkForNewEmails parseBody (w, c) = Inr (w1, c1)"
    and b1: "broadcaster c1 = Some b" and l1: "lastUID c \<le> lastUID c1" by blast
  from Suc.IH [OF b1, of w1]
  obtain w' c' where r: "pollCycles parseBody n (w1, c1) = Inr (w', c')"
    and b': "broadcaster c' = Some b" and l': "lastUID c1 \<le> lastUID c'" by blast
  from l1 l' have "lastUID c \<le> lastUID c'" by (rule order_trans)
  with s r b' show ?case by simp
qed

lemma pollCycles_add:
  "pollCycles parseBody (i + d) s =
     (case pollCycles parseBody i s of Inl p \<Rightarrow> Inl p | Inr s' \<Rightarrow> pollCycles parseBody d s')"
  by (induction i arbitrary: s) (simp_all split: sum.splits)

lemma GetEmailContents_dial_error:
  assumes "ParseUint32 emailID = Inr u" and "dial (sessions srv (conns srv)) = Some e"
  shows "snd (GetEmailContents parseBody srv emailID) =
           Inl (Errorf ''failed to connect to IMAP server: %w'' (Some e))"
  using assms by (simp add: GetEmailContents_def Connect_def Let_def)

lemma GetEmailContents_Body:
  assumes "ParseUint32 emailID = Inr u"
    and "dial (sessions srv (conns srv)) = None" and "login (sessions srv (conns srv)) = None"
    and "select (sessions srv (conns srv)) = Inr mbox"
    and "fetch (sessions srv (conns srv)) = Inr (msg # rest)"
    and "FindBodySection msg = Some raw"
  shows "\<exists>d. snd (GetEmailContents parseBody srv emailID) = Inr d \<and> Body d = fst (parseBody raw)"
  using assms by (simp add: GetEmailContents_def Connect_def Let_def case_prod_beta)

lemma previewOf_error:
  "snd (GetEmailContents parseBody srv (ID email)) = Inl err \<Longrightarrow> previewOf parseBody srv email = []"
  by (simp add: previewOf_def)

subsection \<open>The example cycle, evaluated\<close>

lemma example_broadcaster: "broadcaster exampleChecker = Some MCPServer"
  by (simp add: exampleChecker_def NewEmailNotificationChecker_def)

lemma example_lastUID: "lastUID exampleChecker = 13"
  by (simp add: exampleChecker_def)

lemma example_sent: "sent exampleWorld = []"
  by (simp add: exampleWorld_def worldOf_def)

lemma example_fetch:
  "nextFetch (server exampleWorld) = [exampleMessage 15, exampleMessage 14]"
  by (simp add: nextFetch_def exampleWorld_def example_defs)

lemma example_new:
  "snd (GetEmailsSinceUID (server exampleWorld) (lastUID exampleChecker)) =
     Inr [emailOf (exampleMessage 15), emailOf (exampleMessage 14)]"
  unfolding example_lastUID
  by (simp add: GetEmailsSinceUID_def Connect_def Let_def example_defs exampleWorld_def)

lemma example_watermark:
  "watermarkAfter 13 [emailOf (exampleMessage 15), emailOf (exampleMessage 14)] = 15"
  by (simp add: scannedUID_emailOf exampleMessage_def)

lemmas example_cycle =
  checkForNewEmails_eq [OF example_broadcaster example_new, of plainText,
    unfolded example_lastUID example_watermark example_sent]

lemma example_ID_15: "ID (emailOf (exampleMessage 15)) = ''15''"
proof -
  have "FormatUint 15 = ''15''" by code_simp
  then show ?thesis by (simp add: emailOf_def exampleMessage_def)
qed

lemma example_ID_14: "ID (emailOf (exampleMessage 14)) = ''14''"
proof -
  have "FormatUint 14 = ''14''" by code_simp
  then show ?thesis by (simp add: emailOf_def exampleMessage_def)
qed

lemma example_From: "From (emailOf (exampleMessage u)) = ''Ann <ann@example.org>''"
  by (simp add: emailOf_def fromOf_def Addr_def exampleMessage_def)

lemma example_Subject: "Subject (emailOf (exampleMessage u)) = ''Hello''"
  by (simp add: emailOf_def exampleMessage_def)

lemma example_Date:
  "Format_RFC3339 (Date (emailOf (exampleMessage u))) = ''2024-03-09T07:05:00+01:00''"
proof -
  have "Format_RFC3339 \<lparr>year = 2024, month = 3, day = 9, hour = 7, minute = 5, second = 0, offset = 3600\<rparr> =
        ''2024-03-09T07:05:00+01:00''" by code_simp
  then show ?thesis by (simp add: emailOf_def exampleMessage_def)
qed

lemma example_preview_15:
  "previewOf plainText ((server exampleWorld)\<lparr>conns := Suc (conns (server exampleWorld))\<rparr>)
     (emailOf (exampleMessage 15)) = ''Dear Bob''"
proof -
  let ?srv = "(server exampleWorld)\<lparr>conns := Suc (conns (server exampleWorld))\<rparr>"
  have p: "GetEmailPreview ''  Dear   Bob '' 100 = Inr ''Dear Bob''" by code_simp
  have i: "ParseUint32 (ID (emailOf (exampleMessage 15))) = Inr 15"
    using ParseUint32_FormatUint [of 15] by (simp add: emailOf_def exampleMessage_def)
  have s: "sessions (server exampleWorld) (Suc (conns (server exampleWorld))) =
           goodSession 16 [exampleMessage 15]"
    by (simp add: exampleWorld_def worldOf_def)
  have "\<exists>d. snd (GetEmailContents plainText ?srv (ID (emailOf (exampleMessage 15)))) = Inr d \<and>
            Body d = fst (plainText ''  Dear   Bob '')"
  proof (rule GetEmailContents_Body [OF i])
    show "dial (sessions ?srv (conns ?srv)) = None" by (simp add: s goodSession_def)
    show "login (sessions ?srv (conns ?srv)) = None" by (simp add: s goodSession_def)
    show "select (sessions ?srv (conns ?srv)) = Inr \<lparr>NumMessages = 1, UIDNext = 16\<rparr>"
      by (simp add: s goodSession_def)
    show "fetch (sessions ?srv (conns ?srv)) = Inr (exampleMessage 15 # [])"
      by (simp add: s goodSession_def)
    show "FindBodySection (exampleMessage 15) = Some ''  Dear   Bob ''"
      by (simp add: exampleMessage_def)
  qed
  then obtain d where "snd (GetEmailContents plainText ?srv (ID (emailOf (exampleMessage 15)))) = Inr d"
    and "Body d = ''  Dear   Bob ''" by (auto simp: plainText_def)
  then show ?thesis by (simp add: previewOf_def p)
qed

lemma example_body_14:
  "snd (GetEmailContents plainText
          ((server exampleWorld)\<lparr>conns := Suc (conns (server exampleWorld)) + 1\<rparr>)
          (ID (emailOf (exampleMessage 14)))) =
     Inl (Errorf ''failed to connect to IMAP server: %w'' (Some (External ''connection refused'')))"
proof -
  have i: "ParseUint32 (ID (emailOf (exampleMessage 14))) = Inr 14"
    using ParseUint32_FormatUint [of 14] by (simp add: emailOf_def exampleMessage_def)
  show ?thesis
    by (rule GetEmailContents_dial_error [OF i])
       (simp add: exampleWorld_def worldOf_def deadSession_def)
qed

lemma checkForNewEmails_sent:
  assumes "broadcaster c = Some b"
    and "snd (GetEmailsSinceUID (server w) (lastUID c)) = Inr newEmails"
  shows "\<exists>w' c'. checkForNewEmails parseBody (w, c) = Inr (w', c') \<and>
           sent w' = sent w @
             notificationsFor parseBody ((server w)\<lparr>conns := Suc (conns (server w))\<rparr>) newEmails"
  by (simp add: checkForNewEmails_eq [OF assms])

lemma example_result:
  "projr (checkForNewEmails plainText (exampleWorld, exampleChecker)) =
     (fst (projr (checkForNewEmails plainText (exampleWorld, exampleChecker))),
      exampleChecker\<lparr>lastUID := 15\<rparr>) \<and>
   \<not> isl (checkForNewEmails plainText (exampleWorld, exampleChecker)) \<and>
   sent (fst (projr (checkForNewEmails plainText (exampleWorld, exampleChecker)))) =
     notificationsFor plainText
       ((server exampleWorld)\<lparr>conns := Suc (conns (server exampleWorld))\<rparr>)
       [emailOf (exampleMessage 15), emailOf (exampleMessage 14)]"
  unfolding example_cycle by simp

lemma example_first:
  "hd (sent (fst (projr (checkForNewEmails plainText (exampleWorld, exampleChecker))))) =
     \<lparr>methodName = ''new_email'',
      params = notificationParams (emailOf (exampleMessage 15)) ''Dear Bob''\<rparr>"
  using example_result example_preview_15 by simp

section \<open>The notification payload\<close>

text \<open>
  Claim C1, as the specification states it, does not hold: the parameters of a
  notification have a sixth field, \<open>title\<close>. In the example cycle the first
  notification sent carries a title, so its fields are not the five of the claim.
\<close>

theorem notification_payload_counterexample:
  "\<not> isl (checkForNewEmails plainText (exampleWorld, exampleChecker)) \<and>
   params (hd (sent (fst (projr (checkForNewEmails plainText (exampleWorld, exampleChecker))))))
     ''title'' = Some ''New Email Received. From: Ann <ann@example.org>, Subject: Hello'' \<and>
   dom (params (hd (sent (fst (projr (checkForNewEmails plainText (exampleWorld, exampleChecker))))))) \<noteq>
     {''email_id'', ''from'', ''subject'', ''received_at'', ''preview''}"
proof -
  let ?n = "hd (sent (fst (projr (checkForNewEmails plainText (exampleWorld, exampleChecker)))))"
  have t: "params ?n ''title'' = Some ''New Email Received. From: Ann <ann@example.org>, Subject: Hello''"
    unfolding example_first by (simp add: notificationParams_def example_From example_Subject)
  then have "''title'' \<in> dom (params ?n)" by (simp add: dom_def)
  moreover have "''title'' \<notin> {''email_id'', ''from'', ''subject'', ''received_at'', ''preview''}"
    by simp
  ultimately have "dom (params ?n) \<noteq> {''email_id'', ''from'', ''subject'', ''received_at'', ''preview''}"
    by metis
  with t example_result show ?thesis by (intro conjI) simp_all
qed

text \<open>
  Claim C1, amended. For every new message that a poll cycle processes, the
  notification handed to the broadcaster has the method \<open>new_email\<close> and its
  parameters have exactly the six fields \<open>title\<close>, \<open>email_id\<close>, \<open>from\<close>,
  \<open>subject\<close>, \<open>received_at\<close> and \<open>preview\<close>: the title is made of the sender and
  the subject, \<open>email_id\<close>, \<open>from\<close> and \<open>subject\<close> are those of the message,
  \<open>received_at\<close> is its date in the RFC 3339 layout, and \<open>preview\<close> is a string.
  There is one notification for each new message, in their order.
\<close>

theorem notification_payload:
  assumes "broadcaster c \<noteq> None"
    and "snd (GetEmailsSinceUID (server w) (lastUID c)) = Inr newEmails"
  shows "\<exists>w' c' ns.
           checkForNewEmails parseBody (w, c) = Inr (w', c') \<and>
           sent w' = sent w @ ns \<and> length ns = length newEmails \<and>
           (\<forall>k<length newEmails.
              methodName (ns ! k) = ''new_email'' \<and>
              dom (params (ns ! k)) =
                {''title'', ''email_id'', ''from'', ''subject'', ''received_at'', ''preview''} \<and>
              params (ns ! k) ''title'' =
                Some (''New Email Received. From: '' @ From (newEmails ! k) @
                      '', Subject: '' @ Subject (newEmails ! k)) \<and>
              params (ns ! k) ''email_id'' = Some (ID (newEmails ! k)) \<and>
              params (ns ! k) ''from'' = Some (From (newEmails ! k)) \<and>
              params (ns ! k) ''subject'' = Some (Subject (newEmails ! k)) \<and>
              params (ns ! k) ''received_at'' = Some (Format_RFC3339 (Date (newEmails ! k))) \<and>
              (\<exists>preview. params (ns ! k) ''preview'' = Some preview))"
proof -
  from assms(1) obtain b where b: "broadcaster c = Some b" by auto
  let ?srv = "(server w)\<lparr>conns := Suc (conns (server w))\<rparr>"
  let ?ns = "notificationsFor parseBody ?srv newEmails"
  from checkForNewEmails_sent [OF b assms(2), of parseBody]
  obtain w' c' where r: "checkForNewEmails parseBody (w, c) = Inr (w', c')"
    and s: "sent w' = sent w @ ?ns" by blast
  have len: "length ?ns = length newEmails" by (rule length_notificationsFor)
  have each: "methodName (?ns ! k) = ''new_email'' \<and>
              dom (params (?ns ! k)) =
                {''title'', ''email_id'', ''from'', ''subject'', ''received_at'', ''preview''} \<and>
              params (?ns ! k) ''title'' =
                Some (''New Email Received. From: '' @ From (newEmails ! k) @
                      '', Subject: '' @ Subject (newEmails ! k)) \<and>
              params (?ns ! k) ''email_id'' = Some (ID (newEmails ! k)) \<and>
              params (?ns ! k) ''from'' = Some (From (newEmails ! k)) \<and>
              params (?ns ! k) ''subject'' = Some (Subject (newEmails ! k)) \<and>
              params (?ns ! k) ''received_at'' = Some (Format_RFC3339 (Date (newEmails ! k))) \<and>
              (\<exists>preview. params (?ns ! k) ''preview'' = Some preview)"
    if "k < length newEmails" for k
    unfolding nth_notificationsFor [OF that]
    by (simp add: dom_notificationParams) (simp add: notificationParams_def)
  from r s len each show ?thesis by blast
qed


theorem notification_payload_witness:
  "broadcaster exampleChecker \<noteq> None \<and>
   snd (GetEmailsSinceUID (server exampleWorld) (lastUID exampleChecker)) =
     Inr [emailOf (exampleMessage 15), emailOf (exampleMessage 14)] \<and>
   (\<exists>w' c' ns.
      checkForNewEmails plainText (exampleWorld, exampleChecker) = Inr (w', c') \<and>
      sent w' = ns \<and> length ns = 2 \<and>
      methodName (ns ! 0) = ''new_email'' \<and>
      dom (params (ns ! 0)) =
        {''title'', ''email_id'', ''from'', ''subject'', ''received_at'', ''preview''} \<and>
      params (ns ! 0) ''title'' =
        Some ''New Email Received. From: Ann <ann@example.org>, Subject: Hello'' \<and>
      params (ns ! 0) ''email_id'' = Some ''15'' \<and>
      params (ns ! 0) ''from'' = Some ''Ann <ann@example.org>'' \<and>
      params (ns ! 0) ''subject'' = Some ''Hello'' \<and>
      params (ns ! 0) ''received_at'' = Some ''2024-03-09T07:05:00+01:00'')"
proof -
  have h: "broadcaster exampleChecker \<noteq> None" by (simp add: example_broadcaster)
  let ?new = "[emailOf (exampleMessage 15), emailOf (exampleMessage 14)]"
  from notification_payload [OF h example_new, of plainText]
  obtain w' c' ns where r: "checkForNewEmails plainText (exampleWorld, exampleChecker) = Inr (w', c')"
    and s: "sent w' = sent exampleWorld @ ns" and len: "length ns = length ?new"
    and each: "\<forall>k<length ?new.
              methodName (ns ! k) = ''new_email'' \<and>
              dom (params (ns ! k)) =
                {''title'', ''email_id'', ''from'', ''subject'', ''received_at'', ''preview''} \<and>
              params (ns ! k) ''title'' =
                Some (''New Email Received. From: '' @ From (?new ! k) @
                      '', Subject: '' @ Subject (?new ! k)) \<and>
              params (ns ! k) ''email_id'' = Some (ID (?new ! k)) \<and>
              params (ns ! k) ''from'' = Some (From (?new ! k)) \<and>
              params (ns ! k) ''subject'' = Some (Subject (?new ! k)) \<and>
              params (ns ! k) ''received_at'' = Some (Format_RFC3339 (Date (?new ! k))) \<and>
              (\<exists>preview. params (ns ! k) ''preview'' = Some preview)"
    by (elim exE conjE) (rule that; assumption)
  have "(0::nat) < length ?new" by simp
  with each have first:
    "methodName (ns ! 0) = ''new_email'' \<and>
     dom (params (ns ! 0)) =
       {''title'', ''email_id'', ''from'', ''subject'', ''received_at'', ''preview''} \<and>
     params (ns ! 0) ''title'' =
       Some (''New Email Received. From: '' @ From (?new ! 0) @ '', Subject: '' @ Subject (?new ! 0)) \<and>
     params (ns ! 0) ''email_id'' = Some (ID (?new ! 0)) \<and>
     params (ns ! 0) ''from'' = Some (From (?new ! 0)) \<and>
     params (ns ! 0) ''subject'' = Some (Subject (?new ! 0)) \<and>
     params (ns ! 0) ''received_at'' = Some (Format_RFC3339 (Date (?new ! 0)))"
    by simp
  have n0: "?new ! 0 = emailOf (exampleMessage 15)" by simp
  from first have first':
    "methodName (ns ! 0) = ''new_email'' \<and>
     dom (params (ns ! 0)) =
       {''title'', ''email_id'', ''from'', ''subject'', ''received_at'', ''preview''} \<and>
     params (ns ! 0) ''title'' =
       Some ''New Email Received. From: Ann <ann@example.org>, Subject: Hello'' \<and>
     params (ns ! 0) ''email_id'' = Some ''15'' \<and>
     params (ns ! 0) ''from'' = Some ''Ann <ann@example.org>'' \<and>
     params (ns ! 0) ''subject'' = Some ''Hello'' \<and>
     params (ns ! 0) ''received_at'' = Some ''2024-03-09T07:05:00+01:00''"
    unfolding n0 example_ID_15 example_From example_Subject example_Date by simp
  from s have s': "sent w' = ns" by (simp add: example_sent)
  from len have len': "length ns = 2" by simp
  have inner: "\<exists>w' c' ns.
      checkForNewEmails plainText (exampleWorld, exampleChecker) = Inr (w', c') \<and>
      sent w' = ns \<and> length ns = 2 \<and>
      methodName (ns ! 0) = ''new_email'' \<and>
      dom (params (ns ! 0)) =
        {''title'', ''email_id'', ''from'', ''subject'', ''received_at'', ''preview''} \<and>
      params (ns ! 0) ''title'' =
        Some ''New Email Received. From: Ann <ann@example.org>, Subject: Hello'' \<and>
      params (ns ! 0) ''email_id'' = Some ''15'' \<and>
      params (ns ! 0) ''from'' = Some ''Ann <ann@example.org>'' \<and>
      params (ns ! 0) ''subject'' = Some ''Hello'' \<and>
      params (ns ! 0) ''received_at'' = Some ''2024-03-09T07:05:00+01:00''"
    using r s' len' first'
    by (intro exI [of _ w'] exI [of _ c'] exI [of _ ns] conjI) (elim conjE, assumption)+
  show ?thesis
    by (intro conjI) (rule h, rule example_new, rule inner)
qed

section \<open>Which messages a cycle notifies, and in which order\<close>

lemma new_emails_from_fetch:
  assumes "snd (GetEmailsSinceUID srv sinceUID) = Inr newEmails"
  shows "\<exists>us. map ID newEmails = map (\<lambda>u. FormatUint (unat u)) us \<and>
              (us = [] \<or> us = filter (\<lambda>u. sinceUID < u) (map UID (nextFetch srv)))"
proof -
  from GetEmailsSinceUID_result [OF assms]
  show ?thesis
  proof
    assume "newEmails = []"
    then have "map ID newEmails = map (\<lambda>u. FormatUint (unat u)) []" by simp
    then show ?thesis by blast
  next
    assume "newEmails = emailsSince sinceUID (nextFetch srv)"
    then have "map ID newEmails =
        map (\<lambda>u. FormatUint (unat u)) (filter (\<lambda>u. sinceUID < u) (map UID (nextFetch srv)))"
      by (simp add: emailsSince_filter filter_map o_def emailOf_def)
    then show ?thesis by blast
  qed
qed

lemma cycle_email_ids:
  assumes "broadcaster c = Some b"
  shows "\<exists>w' c' ns us.
           checkForNewEmails parseBody (w, c) = Inr (w', c') \<and> sent w' = sent w @ ns \<and>
           map (\<lambda>n. params n ''email_id'') ns = map (\<lambda>u. Some (FormatUint (unat u))) us \<and>
           (us = [] \<or> us = filter (\<lambda>u. lastUID c < u) (map UID (nextFetch (server w))))"
proof (cases "snd (GetEmailsSinceUID (server w) (lastUID c))")
  case (Inl err)
  have "checkForNewEmails parseBody (w, c) =
          Inr (fst (projr (checkForNewEmails parseBody (w, c))), c) \<and>
        sent (fst (projr (checkForNewEmails parseBody (w, c)))) = sent w @ []"
    by (simp add: checkForNewEmails_error_eq [OF Inl])
  moreover have "map (\<lambda>n. params n ''email_id'') [] = map (\<lambda>u. Some (FormatUint (unat u))) ([] :: uint32 list)"
    by simp
  ultimately show ?thesis by blast
next
  case (Inr newEmails)
  from checkForNewEmails_sent [OF assms Inr, of parseBody]
  obtain w' c' where r: "checkForNewEmails parseBody (w, c) = Inr (w', c')"
    and s: "sent w' = sent w @
      notificationsFor parseBody ((server w)\<lparr>conns := Suc (conns (server w))\<rparr>) newEmails"
    by blast
  from new_emails_from_fetch [OF Inr]
  obtain us where ids: "map ID newEmails = map (\<lambda>u. FormatUint (unat u)) us"
    and us: "us = [] \<or> us = filter (\<lambda>u. lastUID c < u) (map UID (nextFetch (server w)))"
    by blast
  have "map (\<lambda>email. Some (ID email)) newEmails = map Some (map ID newEmails)" by simp
  also have "\<dots> = map (\<lambda>u. Some (FormatUint (unat u))) us" unfolding ids by simp
  finally have "map (\<lambda>n. params n ''email_id'')
        (notificationsFor parseBody ((server w)\<lparr>conns := Suc (conns (server w))\<rparr>) newEmails) =
      map (\<lambda>u. Some (FormatUint (unat u))) us"
    by (simp only: email_ids_notificationsFor)
  with r s us show ?thesis by blast
qed

lemma sorted_after_filter:
  assumes "us = [] \<or> us = filter P (xs :: uint32 list)"
  shows "sorted xs \<longrightarrow> sorted us"
  using assms by (auto simp: sorted_wrt_filter)

subsection \<open>More of the examples, evaluated\<close>

lemma example_new_14:
  "snd (GetEmailsSinceUID (server exampleWorld) (lastUID (exampleChecker\<lparr>lastUID := 14\<rparr>))) =
     Inr [emailOf (exampleMessage 15)]"
  by (simp add: GetEmailsSinceUID_def Connect_def Let_def example_defs exampleWorld_def)

lemma example_fetch_uids: "map UID (nextFetch (server exampleWorld)) = [15, 14]"
  by (simp add: example_fetch exampleMessage_def)

lemma sorted_sent: "sent sortedWorld = []"
  by (simp add: sortedWorld_def worldOf_def)

lemma sorted_fetch_uids: "map UID (nextFetch (server sortedWorld)) = [14, 15]"
  by (simp add: nextFetch_def sortedWorld_def example_defs)

lemma sorted_new:
  "snd (GetEmailsSinceUID (server sortedWorld) (lastUID exampleChecker)) =
     Inr [emailOf (exampleMessage 14), emailOf (exampleMessage 15)]"
  unfolding example_lastUID
  by (simp add: GetEmailsSinceUID_def Connect_def Let_def example_defs sortedWorld_def)

lemma example_second_cycle:
  "\<exists>w1 w2.
     pollCycles plainText (Suc 0) (exampleWorld, exampleChecker) =
       Inr (w1, exampleChecker\<lparr>lastUID := 15\<rparr>) \<and>
     pollCycles plainText (Suc (Suc 0)) (exampleWorld, exampleChecker) =
       Inr (w2, exampleChecker\<lparr>lastUID := 15\<rparr>)"
proof -
  let ?c1 = "exampleChecker\<lparr>lastUID := 15\<rparr>"
  from example_cycle obtain w1 where
    c1: "checkForNewEmails plainText (exampleWorld, exampleChecker) = Inr (w1, ?c1)"
    and srv: "server w1 = (server exampleWorld)\<lparr>conns := Suc (conns (server exampleWorld)) + 2\<rparr>"
    by simp
  have b1: "broadcaster ?c1 = Some MCPServer" by (simp add: example_broadcaster)
  have g2: "snd (GetEmailsSinceUID (server w1) (lastUID ?c1)) = Inr []"
    unfolding srv
    by (simp add: GetEmailsSinceUID_def Connect_def Let_def example_defs exampleWorld_def)
  from checkForNewEmails_eq [OF b1 g2, of plainText]
  obtain w2 where c2: "checkForNewEmails plainText (w1, ?c1) = Inr (w2, ?c1)" by simp
  from c1 c2 show ?thesis by simp
qed

text \<open>
  Claim C3. Whatever the server answers, a checker that has a broadcaster runs any
  number of poll cycles without a panic, and the watermark \<open>lastUID\<close> after \<open>i\<close>
  cycles is at most the watermark after \<open>j\<close> cycles whenever \<open>i \<le> j\<close>: once it
  holds a value, no later run of \<open>checkForNewEmails\<close> sets it below. (Within a cycle
  every write is a maximum, see \<open>watermarkAfter\<close>.)
\<close>

theorem watermark_monotone:
  assumes "broadcaster c \<noteq> None"
  shows "\<forall>i j. i \<le> j \<longrightarrow>
           (\<exists>wi ci wj cj. pollCycles parseBody i (w, c) = Inr (wi, ci) \<and>
                          pollCycles parseBody j (w, c) = Inr (wj, cj) \<and>
                          lastUID c \<le> lastUID ci \<and> lastUID ci \<le> lastUID cj)"
proof (intro allI impI)
  fix i j :: nat
  assume "i \<le> j"
  then obtain d where j: "j = i + d" by (auto simp: le_iff_add)
  from assms obtain b where b: "broadcaster c = Some b" by auto
  from pollCycles_total [OF b, of parseBody i w]
  obtain wi ci where si: "pollCycles parseBody i (w, c) = Inr (wi, ci)"
    and bi: "broadcaster ci = Some b" and li: "lastUID c \<le> lastUID ci" by blast
  from pollCycles_total [OF bi, of parseBody d wi]
  obtain wj cj where sj: "pollCycles parseBody d (wi, ci) = Inr (wj, cj)"
    and lj: "lastUID ci \<le> lastUID cj" by blast
  have "pollCycles parseBody j (w, c) = Inr (wj, cj)"
    unfolding j pollCycles_add si using sj by simp
  with si li lj
  show "\<exists>wi ci wj cj. pollCycles parseBody i (w, c) = Inr (wi, ci) \<and>
                          pollCycles parseBody j (w, c) = Inr (wj, cj) \<and>
                          lastUID c \<le> lastUID ci \<and> lastUID ci \<le> lastUID cj"
    by blast
qed


theorem watermark_monotone_witness:
  "broadcaster exampleChecker \<noteq> None \<and> Suc 0 \<le> Suc (Suc 0) \<and>
   (\<exists>wi ci wj cj.
      pollCycles plainText (Suc 0) (exampleWorld, exampleChecker) = Inr (wi, ci) \<and>
      pollCycles plainText (Suc (Suc 0)) (exampleWorld, exampleChecker) = Inr (wj, cj) \<and>
      lastUID exampleChecker \<le> lastUID ci \<and> lastUID ci \<le> lastUID cj \<and>
      lastUID exampleChecker = 13 \<and> lastUID ci = 15 \<and> lastUID cj = 15)"
proof -
  have h: "broadcaster exampleChecker \<noteq> None" by (simp add: example_broadcaster)
  have le: "Suc 0 \<le> Suc (Suc 0)" by simp
  from watermark_monotone [OF h, rule_format, OF le, of plainText exampleWorld]
  obtain wi ci wj cj where
    i: "pollCycles plainText (Suc 0) (exampleWorld, exampleChecker) = Inr (wi, ci)"
    and j: "pollCycles plainText (Suc (Suc 0)) (exampleWorld, exampleChecker) = Inr (wj, cj)"
    and l0: "lastUID exampleChecker \<le> lastUID ci" and l1: "lastUID ci \<le> lastUID cj"
    by (elim exE conjE) (rule that; assumption)
  from example_second_cycle i j have "ci = exampleChecker\<lparr>lastUID := 15\<rparr>"
    and "cj = exampleChecker\<lparr>lastUID := 15\<rparr>" by auto
  then have v: "lastUID ci = 15" "lastUID cj = 15" by simp_all
  have inner: "\<exists>wi ci wj cj.
      pollCycles plainText (Suc 0) (exampleWorld, exampleChecker) = Inr (wi, ci) \<and>
      pollCycles plainText (Suc (Suc 0)) (exampleWorld, exampleChecker) = Inr (wj, cj) \<and>
      lastUID exampleChecker \<le> lastUID ci \<and> lastUID ci \<le> lastUID cj \<and>
      lastUID exampleChecker = 13 \<and> lastUID ci = 15 \<and> lastUID cj = 15"
    using i j l0 l1 example_lastUID v
    by (intro exI [of _ wi] exI [of _ ci] exI [of _ wj] exI [of _ cj] conjI)
  show ?thesis by (intro conjI) (rule h, rule le, rule inner)
qed

text \<open>
  Claim C4. With the watermark \<open>lastUID c\<close> at the start of the cycle, every
  notification the cycle sends carries the identifier of a fetched message whose UID
  is strictly greater than the watermark, and no notification carries the identifier
  of a fetched message whose UID is at most the watermark. In the example the server
  returns the messages 15 and 14 to a checker whose watermark is 14: only 15 is
  notified.
\<close>

theorem only_new_uids_notified:
  assumes "broadcaster c \<noteq> None"
  shows "\<exists>w' c' ns.
           checkForNewEmails parseBody (w, c) = Inr (w', c') \<and> sent w' = sent w @ ns \<and>
           (\<forall>n\<in>set ns. \<exists>m\<in>set (nextFetch (server w)).
              lastUID c < UID m \<and> params n ''email_id'' = Some (FormatUint (unat (UID m)))) \<and>
           (\<forall>m\<in>set (nextFetch (server w)). UID m \<le> lastUID c \<longrightarrow>
              (\<forall>n\<in>set ns. params n ''email_id'' \<noteq> Some (FormatUint (unat (UID m)))))"
proof -
  from assms obtain b where b: "broadcaster c = Some b" by auto
  from cycle_email_ids [OF b, of parseBody w]
  obtain w' c' ns us where r: "checkForNewEmails parseBody (w, c) = Inr (w', c')"
    and s: "sent w' = sent w @ ns"
    and ids: "map (\<lambda>n. params n ''email_id'') ns = map (\<lambda>u. Some (FormatUint (unat u))) us"
    and us: "us = [] \<or> us = filter (\<lambda>u. lastUID c < u) (map UID (nextFetch (server w)))"
    by blast
  have new: "\<exists>m\<in>set (nextFetch (server w)).
      lastUID c < UID m \<and> params n ''email_id'' = Some (FormatUint (unat (UID m)))"
    if n: "n \<in> set ns" for n
  proof -
    from n have "params n ''email_id'' \<in> set (map (\<lambda>n. params n ''email_id'') ns)" by simp
    then have "params n ''email_id'' \<in> set (map (\<lambda>u. Some (FormatUint (unat u))) us)"
      unfolding ids .
    then obtain u where u: "u \<in> set us" and p: "params n ''email_id'' = Some (FormatUint (unat u))"
      by auto
    from u us have "u \<in> set (filter (\<lambda>u. lastUID c < u) (map UID (nextFetch (server w))))"
      by auto
    then obtain m where "m \<in> set (nextFetch (server w))" and "UID m = u" and "lastUID c < u"
      by auto
    with p show ?thesis by auto
  qed
  have old: "params n ''email_id'' \<noteq> Some (FormatUint (unat (UID m)))"
    if m: "m \<in> set (nextFetch (server w))" and le: "UID m \<le> lastUID c" and n: "n \<in> set ns" for m n
  proof
    assume eq: "params n ''email_id'' = Some (FormatUint (unat (UID m)))"
    from new [OF n] obtain m' where "m' \<in> set (nextFetch (server w))"
      and lt: "lastUID c < UID m'"
      and p: "params n ''email_id'' = Some (FormatUint (unat (UID m')))"
      by (elim bexE conjE) (rule that; assumption)
    from eq p have "FormatUint (unat (UID m)) = FormatUint (unat (UID m'))" by simp
    then have "UID m = UID m'" by (rule FormatUint_inj)
    with le lt show False by simp
  qed
  from r s new old show ?thesis by blast
qed


theorem only_new_uids_notified_witness:
  "broadcaster (exampleChecker\<lparr>lastUID := 14\<rparr>) \<noteq> None \<and>
   map UID (nextFetch (server exampleWorld)) = [15, 14] \<and>
   (\<exists>w' c'. checkForNewEmails plainText (exampleWorld, exampleChecker\<lparr>lastUID := 14\<rparr>) = Inr (w', c') \<and>
            map (\<lambda>n. params n ''email_id'') (sent w') = [Some ''15''])"
proof -
  let ?c = "exampleChecker\<lparr>lastUID := 14\<rparr>"
  have b: "broadcaster ?c = Some MCPServer" by (simp add: example_broadcaster)
  then have h: "broadcaster ?c \<noteq> None" by simp
  from only_new_uids_notified [OF h, of plainText exampleWorld]
  obtain w' c' ns where r: "checkForNewEmails plainText (exampleWorld, ?c) = Inr (w', c')"
    and s: "sent w' = sent exampleWorld @ ns"
    by (elim exE conjE) (rule that; assumption)
  from checkForNewEmails_sent [OF b example_new_14, of plainText] r
  have "sent w' = sent exampleWorld @
      notificationsFor plainText ((server exampleWorld)\<lparr>conns := Suc (conns (server exampleWorld))\<rparr>)
        [emailOf (exampleMessage 15)]" by auto
  then have "map (\<lambda>n. params n ''email_id'') (sent w') = [Some ''15'']"
    by (simp add: example_sent notificationParams_def example_ID_15)
  with r have inner: "\<exists>w' c'. checkForNewEmails plainText (exampleWorld, ?c) = Inr (w', c') \<and>
            map (\<lambda>n. params n ''email_id'') (sent w') = [Some ''15'']"
    by (intro exI [of _ w'] exI [of _ c'] conjI)
  show ?thesis by (intro conjI) (rule h, rule example_fetch_uids, rule inner)
qed


text \<open>
  Claim C6, as the specification states it, does not hold: the loop goes through the
  messages in the order in which the server returned them and nothing sorts them. In
  the example cycle the FETCH returns 15 before 14, and the notification for 15 is
  sent before the one for 14.
\<close>

theorem notifications_in_fetch_order_counterexample:
  "\<not> isl (checkForNewEmails plainText (exampleWorld, exampleChecker)) \<and>
   map UID (nextFetch (server exampleWorld)) = [15, 14] \<and>
   length (sent (fst (projr (checkForNewEmails plainText (exampleWorld, exampleChecker))))) = 2 \<and>
   params (sent (fst (projr (checkForNewEmails plainText (exampleWorld, exampleChecker)))) ! 0)
     ''email_id'' = Some ''15'' \<and>
   params (sent (fst (projr (checkForNewEmails plainText (exampleWorld, exampleChecker)))) ! 1)
     ''email_id'' = Some ''14''"
proof -
  let ?sent = "sent (fst (projr (checkForNewEmails plainText (exampleWorld, exampleChecker))))"
  from example_result have ok: "\<not> isl (checkForNewEmails plainText (exampleWorld, exampleChecker))"
    and s: "?sent = notificationsFor plainText
       ((server exampleWorld)\<lparr>conns := Suc (conns (server exampleWorld))\<rparr>)
       [emailOf (exampleMessage 15), emailOf (exampleMessage 14)]" by simp_all
  have len: "length ?sent = 2" unfolding s by simp
  have a: "params (?sent ! 0) ''email_id'' = Some ''15''"
    unfolding s by (simp add: notificationParams_def example_ID_15)
  have b: "params (?sent ! 1) ''email_id'' = Some ''14''"
    unfolding s by (simp add: notificationParams_def example_ID_14)
  show ?thesis
    by (intro conjI) (rule ok, rule example_fetch_uids, rule len, rule a, rule b)
qed

text \<open>
  Claim C6, amended. Within a poll cycle the notifications are sent in the order in
  which the server returned the messages: their identifiers are those of the UIDs
  \<open>us\<close>, which are either none (nothing new, or the fetch failed) or the fetched
  UIDs above the watermark, in fetch order. They are therefore in non-decreasing UID
  order whenever the server returns the messages so.
\<close>

theorem notifications_in_fetch_order:
  assumes "broadcaster c \<noteq> None"
  shows "\<exists>w' c' ns us.
           checkForNewEmails parseBody (w, c) = Inr (w', c') \<and> sent w' = sent w @ ns \<and>
           map (\<lambda>n. params n ''email_id'') ns = map (\<lambda>u. Some (FormatUint (unat u))) us \<and>
           (us = [] \<or> us = filter (\<lambda>u. lastUID c < u) (map UID (nextFetch (server w)))) \<and>
           (sorted (map UID (nextFetch (server w))) \<longrightarrow> sorted us)"
proof -
  from assms obtain b where b: "broadcaster c = Some b" by auto
  from cycle_email_ids [OF b, of parseBody w]
  obtain w' c' ns us where r: "checkForNewEmails parseBody (w, c) = Inr (w', c')"
    and s: "sent w' = sent w @ ns"
    and ids: "map (\<lambda>n. params n ''email_id'') ns = map (\<lambda>u. Some (FormatUint (unat u))) us"
    and us: "us = [] \<or> us = filter (\<lambda>u. lastUID c < u) (map UID (nextFetch (server w)))"
    by blast
  from us have "sorted (map UID (nextFetch (server w))) \<longrightarrow> sorted us"
    by (rule sorted_after_filter)
  with r s ids us show ?thesis by blast
qed

theorem notifications_in_fetch_order_witness:
  "broadcaster exampleChecker \<noteq> None \<and>
   map UID (nextFetch (server sortedWorld)) = [14, 15] \<and>
   sorted (map UID (nextFetch (server sortedWorld))) \<and>
   (\<exists>w' c' us.
      checkForNewEmails plainText (sortedWorld, exampleChecker) = Inr (w', c') \<and>
      map (\<lambda>n. params n ''email_id'') (sent w') = map (\<lambda>u. Some (FormatUint (unat u))) us \<and>
      us = [14, 15 :: uint32] \<and> sorted us)"
proof -
  have h: "broadcaster exampleChecker \<noteq> None" by (simp add: example_broadcaster)
  have so: "sorted (map UID (nextFetch (server sortedWorld)))"
    unfolding sorted_fetch_uids by simp
  from notifications_in_fetch_order [OF h, of plainText sortedWorld]
  obtain w' c' ns us where r: "checkForNewEmails plainText (sortedWorld, exampleChecker) = Inr (w', c')"
    and s: "sent w' = sent sortedWorld @ ns"
    and ids: "map (\<lambda>n. params n ''email_id'') ns = map (\<lambda>u. Some (FormatUint (unat u))) us"
    and us: "us = [] \<or> us = filter (\<lambda>u. lastUID exampleChecker < u) (map UID (nextFetch (server sortedWorld)))"
    and imp: "sorted (map UID (nextFetch (server sortedWorld))) \<longrightarrow> sorted us"
    by (elim exE conjE) (rule that; assumption)
  from imp so have sus: "sorted us" by simp
  from checkForNewEmails_sent [OF example_broadcaster sorted_new, of plainText] r
  have "sent w' = sent sortedWorld @
      notificationsFor plainText ((server sortedWorld)\<lparr>conns := Suc (conns (server sortedWorld))\<rparr>)
        [emailOf (exampleMessage 14), emailOf (exampleMessage 15)]" by auto
  with s have "length ns = 2" by auto
  with ids have "length us = 2" by (metis length_map)
  with us have u: "us = [14, 15]"
    by (auto simp: sorted_fetch_uids example_lastUID)
  from s have s': "sent w' = ns" by (simp add: sorted_sent)
  have inner: "\<exists>w' c' us.
      checkForNewEmails plainText (sortedWorld, exampleChecker) = Inr (w', c') \<and>
      map (\<lambda>n. params n ''email_id'') (sent w') = map (\<lambda>u. Some (FormatUint (unat u))) us \<and>
      us = [14, 15 :: uint32] \<and> sorted us"
  proof (intro exI conjI)
    show "checkForNewEmails plainText (sortedWorld, exampleChecker) = Inr (w', c')" by (rule r)
    show "map (\<lambda>n. params n ''email_id'') (sent w') = map (\<lambda>u. Some (FormatUint (unat u))) us"
      unfolding s' by (rule ids)
    show "us = [14, 15 :: uint32]" by (rule u)
    show "sorted us" by (rule sus)
  qed
  show ?thesis
    by (intro conjI) (rule h, rule sorted_fetch_uids, rule so, rule inner)
qed

text \<open>
  Claim C8. The body of the \<open>k\<close>-th new message of a cycle is fetched on the
  connection that follows the cycle's own and those of the \<open>k\<close> messages before it.
  When \<open>GetEmailContents\<close> fails there, the \<open>k\<close>-th notification of the cycle is
  sent all the same, for that message and with the empty string as preview.
\<close>

theorem preview_empty_on_body_error:
  assumes "broadcaster c \<noteq> None"
    and "snd (GetEmailsSinceUID (server w) (lastUID c)) = Inr newEmails"
    and "k < length newEmails"
    and "snd (GetEmailContents parseBody
                ((server w)\<lparr>conns := Suc (conns (server w)) + k\<rparr>) (ID (newEmails ! k))) = Inl err"
  shows "\<exists>w' c' ns.
           checkForNewEmails parseBody (w, c) = Inr (w', c') \<and>
           sent w' = sent w @ ns \<and> length ns = length newEmails \<and>
           methodName (ns ! k) = ''new_email'' \<and>
           params (ns ! k) ''email_id'' = Some (ID (newEmails ! k)) \<and>
           params (ns ! k) ''preview'' = Some []"
proof -
  from assms(1) obtain b where b: "broadcaster c = Some b" by auto
  let ?srv = "(server w)\<lparr>conns := Suc (conns (server w))\<rparr>"
  let ?ns = "notificationsFor parseBody ?srv newEmails"
  from checkForNewEmails_sent [OF b assms(2), of parseBody]
  obtain w' c' where r: "checkForNewEmails parseBody (w, c) = Inr (w', c')"
    and s: "sent w' = sent w @ ?ns" by blast
  have len: "length ?ns = length newEmails" by (rule length_notificationsFor)
  have srv: "?srv\<lparr>conns := conns ?srv + k\<rparr> = (server w)\<lparr>conns := Suc (conns (server w)) + k\<rparr>"
    by simp
  have pv: "previewOf parseBody ((server w)\<lparr>conns := Suc (conns (server w)) + k\<rparr>) (newEmails ! k) = []"
    by (rule previewOf_error [OF assms(4)])
  have nth: "?ns ! k = \<lparr>methodName = ''new_email'',
      params = notificationParams (newEmails ! k) []\<rparr>"
    unfolding nth_notificationsFor [OF assms(3)] srv pv by (rule refl)
  have m: "methodName (?ns ! k) = ''new_email''" unfolding nth by simp
  have i: "params (?ns ! k) ''email_id'' = Some (ID (newEmails ! k))"
    unfolding nth by (simp add: notificationParams_def)
  have p: "params (?ns ! k) ''preview'' = Some []"
    unfolding nth by (simp add: notificationParams_def)
  from r s len m i p show ?thesis by blast
qed

theorem preview_empty_on_body_error_witness:
  "broadcaster exampleChecker \<noteq> None \<and>
   snd (GetEmailsSinceUID (server exampleWorld) (lastUID exampleChecker)) =
     Inr [emailOf (exampleMessage 15), emailOf (exampleMessage 14)] \<and>
   (1::nat) < length [emailOf (exampleMessage 15), emailOf (exampleMessage 14)] \<and>
   snd (GetEmailContents plainText
          ((server exampleWorld)\<lparr>conns := Suc (conns (server exampleWorld)) + 1\<rparr>)
          (ID (emailOf (exampleMessage 14)))) =
     Inl (Errorf ''failed to connect to IMAP server: %w'' (Some (External ''connection refused''))) \<and>
   (\<exists>w' c' ns.
      checkForNewEmails plainText (exampleWorld, exampleChecker) = Inr (w', c') \<and>
      sent w' = ns \<and> length ns = 2 \<and>
      methodName (ns ! 1) = ''new_email'' \<and>
      params (ns ! 1) ''email_id'' = Some ''14'' \<and>
      params (ns ! 1) ''preview'' = Some [])"
proof -
  let ?new = "[emailOf (exampleMessage 15), emailOf (exampleMessage 14)]"
  have h: "broadcaster exampleChecker \<noteq> None" by (simp add: example_broadcaster)
  have k: "(1::nat) < length ?new" by simp
  have n1: "?new ! 1 = emailOf (exampleMessage 14)" by simp
  have e: "snd (GetEmailContents plainText
          ((server exampleWorld)\<lparr>conns := Suc (conns (server exampleWorld)) + 1\<rparr>)
          (ID (?new ! 1))) =
     Inl (Errorf ''failed to connect to IMAP server: %w'' (Some (External ''connection refused'')))"
    unfolding n1 by (rule example_body_14)
  from preview_empty_on_body_error [OF h example_new k e]
  obtain w' c' ns where r: "checkForNewEmails plainText (exampleWorld, exampleChecker) = Inr (w', c')"
    and s: "sent w' = sent exampleWorld @ ns" and len: "length ns = length ?new"
    and m: "methodName (ns ! 1) = ''new_email''"
    and i: "params (ns ! 1) ''email_id'' = Some (ID (?new ! 1))"
    and p: "params (ns ! 1) ''preview'' = Some []"
    by (elim exE conjE) (rule that; assumption)
  from s have s': "sent w' = ns" by (simp add: example_sent)
  from len have len': "length ns = 2" by simp
  from i have i': "params (ns ! 1) ''email_id'' = Some ''14''"
    unfolding n1 example_ID_14 .
  have inner: "\<exists>w' c' ns.
      checkForNewEmails plainText (exampleWorld, exampleChecker) = Inr (w', c') \<and>
      sent w' = ns \<and> length ns = 2 \<and>
      methodName (ns ! 1) = ''new_email'' \<and>
      params (ns ! 1) ''email_id'' = Some ''14'' \<and>
      params (ns ! 1) ''preview'' = Some []"
    using r s' len' m i' p
    by (intro exI [of _ w'] exI [of _ c'] exI [of _ ns] conjI)
  show ?thesis
    by (intro conjI) (rule h, rule example_new, rule k, rule example_body_14, rule inner)
qed

section \<open>The client tracker\<close>

lemma calls_log: "calls (log l w) = calls w"
  by (simp add: log_def)

lemma calls_Start: "calls (fst (Start w c)) = calls w @ [CallStart]"
  by (cases "GetLatestUID (server (w\<lparr>calls := calls w @ [CallStart]\<rparr>))")
     (simp add: Start_def Let_def log_def split: option.splits)

lemma calls_Stop: "calls (fst (Stop w c)) = calls w @ [CallStop]"
  by (simp add: Stop_def Let_def)

lemma OnClientConnected_count:
  "clientCount (snd (OnClientConnected (w, t))) = clientCount t + 1"
  by (simp add: OnClientConnected_def Let_def split: option.splits prod.splits)

lemma OnClientDisconnected_count:
  "clientCount (snd (OnClientDisconnected (w, t))) = clientCount t - 1"
  by (simp add: OnClientDisconnected_def Let_def split: option.splits prod.splits)

lemma OnClientConnected_checker:
  "(checker (snd (OnClientConnected (w, t))) = None) = (checker t = None)"
  by (simp add: OnClientConnected_def Let_def split: option.splits prod.splits)

lemma OnClientDisconnected_checker:
  "(checker (snd (OnClientDisconnected (w, t))) = None) = (checker t = None)"
  by (simp add: OnClientDisconnected_def Let_def split: option.splits prod.splits)

lemma OnClientConnected_calls:
  "calls (fst (OnClientConnected (w, t))) =
     calls w @ (if clientCount t + 1 = 1 \<and> checker t \<noteq> None then [CallStart] else [])"
proof (cases "checker t")
  case None
  then show ?thesis by (simp add: OnClientConnected_def Let_def calls_log)
next
  case (Some c)
  show ?thesis
  proof (cases "clientCount t + 1 = 1")
    case True
    let ?w1 = "log (Printf ''Client connected (total: %d)'' [D (sint (clientCount t + 1))]) w"
    have "calls (fst (Start ?w1 c)) = calls w @ [CallStart]"
      by (simp add: calls_Start calls_log)
    with Some True show ?thesis
      by (cases "Start ?w1 c") (simp add: OnClientConnected_def Let_def)
  next
    case False
    with Some show ?thesis by (simp add: OnClientConnected_def Let_def calls_log)
  qed
qed

lemma OnClientDisconnected_calls:
  "calls (fst (OnClientDisconnected (w, t))) =
     calls w @ (if clientCount t - 1 = 0 \<and> checker t \<noteq> None then [CallStop] else [])"
proof (cases "checker t")
  case None
  then show ?thesis by (simp add: OnClientDisconnected_def Let_def calls_log)
next
  case (Some c)
  show ?thesis
  proof (cases "clientCount t - 1 = 0")
    case True
    let ?w1 = "log (Printf ''Client disconnected (total: %d)'' [D (sint (clientCount t - 1))]) w"
    have "calls (fst (Stop ?w1 c)) = calls w @ [CallStop]"
      by (simp add: calls_Stop calls_log)
    with Some True show ?thesis
      by (cases "Stop ?w1 c") (simp add: OnClientDisconnected_def Let_def)
  next
    case False
    with Some show ?thesis by (simp add: OnClientDisconnected_def Let_def calls_log)
  qed
qed

lemma sessionHooks_count:
  "clientCount (snd (sessionHooks es s)) =
     clientCount (snd s) + word_of_nat (count_list es RegisterSession)
       - word_of_nat (count_list es UnregisterSession)"
proof (induction es arbitrary: s)
  case Nil
  show ?case by simp
next
  case (Cons e es)
  obtain w t where s: "s = (w, t)" by (cases s)
  show ?case
  proof (cases e)
    case RegisterSession
    then show ?thesis
      by (simp add: Cons.IH s OnClientConnected_count)
  next
    case UnregisterSession
    then show ?thesis
      by (simp add: Cons.IH s OnClientDisconnected_count)
  qed
qed

lemma sint_difference:
  assumes "a < 2 ^ 31" and "b < 2 ^ 31"
  shows "sint (word_of_nat a - word_of_nat b :: 32 word) = int a - int b"
proof -
  have "(word_of_nat a - word_of_nat b :: 32 word) = word_of_int (int a - int b)"
    by simp
  then have "sint (word_of_nat a - word_of_nat b :: 32 word) = signed_take_bit 31 (int a - int b)"
    by (simp only: sint_sbintrunc') simp
  also have "\<dots> = int a - int b"
  proof (rule signed_take_bit_int_eq_self)
    from assms(2) have "int b < 2 ^ 31" by (metis of_nat_less_iff of_nat_numeral of_nat_power)
    then show "- (2 ^ 31) \<le> int a - int b" by linarith
    from assms(1) have "int a < 2 ^ 31" by (metis of_nat_less_iff of_nat_numeral of_nat_power)
    then show "int a - int b < 2 ^ 31" by linarith
  qed
  finally show ?thesis .
qed

lemma sessionHooks_GetClientCount:
  assumes "length es < 2 ^ 31"
  shows "GetClientCount (snd (sessionHooks es (w, NewClientTracker chk))) =
           int (count_list es RegisterSession) - int (count_list es UnregisterSession)"
proof -
  have a: "count_list es RegisterSession < 2 ^ 31"
    using count_le_length [of es RegisterSession] assms by (rule le_less_trans)
  have b: "count_list es UnregisterSession < 2 ^ 31"
    using count_le_length [of es UnregisterSession] assms by (rule le_less_trans)
  show ?thesis
    unfolding GetClientCount_def sessionHooks_count
    by (simp add: NewClientTracker_def sint_difference [OF a b])
qed

lemma NewClientTracker_fields:
  "clientCount (NewClientTracker chk) = 0" "checker (NewClientTracker chk) = chk"
  by (simp_all add: NewClientTracker_def)

text \<open>The tracker after a registration and two unregistrations, and after one more registration.\<close>

lemma three_events:
  "clientCount (snd (sessionHooks [RegisterSession, UnregisterSession, UnregisterSession]
      (w, NewClientTracker (Some c)))) = - 1 \<and>
   checker (snd (sessionHooks [RegisterSession, UnregisterSession, UnregisterSession]
      (w, NewClientTracker (Some c)))) \<noteq> None \<and>
   calls (fst (sessionHooks [RegisterSession, UnregisterSession, UnregisterSession]
      (w, NewClientTracker (Some c)))) = calls w @ [CallStart, CallStop]"
proof -
  let ?t0 = "NewClientTracker (Some c)"
  obtain w1 t1 where s1: "OnClientConnected (w, ?t0) = (w1, t1)"
    by (cases "OnClientConnected (w, ?t0)")
  obtain w2 t2 where s2: "OnClientDisconnected (w1, t1) = (w2, t2)"
    by (cases "OnClientDisconnected (w1, t1)")
  obtain w3 t3 where s3: "OnClientDisconnected (w2, t2) = (w3, t3)"
    by (cases "OnClientDisconnected (w2, t2)")
  have c1: "clientCount t1 = 1" and k1: "checker t1 \<noteq> None" and l1: "calls w1 = calls w @ [CallStart]"
    using OnClientConnected_count [of w ?t0] OnClientConnected_checker [of w ?t0]
      OnClientConnected_calls [of w ?t0]
    by (simp_all add: s1 NewClientTracker_fields)
  have c2: "clientCount t2 = 0" and k2: "checker t2 \<noteq> None"
    and l2: "calls w2 = calls w @ [CallStart, CallStop]"
    using OnClientDisconnected_count [of w1 t1] OnClientDisconnected_checker [of w1 t1]
      OnClientDisconnected_calls [of w1 t1]
    by (simp_all add: s2 c1 k1 l1)
  have c3: "clientCount t3 = - 1" and k3: "checker t3 \<noteq> None"
    and l3: "calls w3 = calls w @ [CallStart, CallStop]"
    using OnClientDisconnected_count [of w2 t2] OnClientDisconnected_checker [of w2 t2]
      OnClientDisconnected_calls [of w2 t2]
    by (simp_all add: s3 c2 k2 l2)
  show ?thesis by (simp add: s1 s2 s3 c3 k3 l3)
qed

lemma four_events:
  "clientCount (snd (sessionHooks [RegisterSession, UnregisterSession, UnregisterSession, RegisterSession]
      (w, NewClientTracker (Some c)))) = 0 \<and>
   calls (fst (sessionHooks [RegisterSession, UnregisterSession, UnregisterSession, RegisterSession]
      (w, NewClientTracker (Some c)))) = calls w @ [CallStart, CallStop]"
proof -
  let ?s3 = "sessionHooks [RegisterSession, UnregisterSession, UnregisterSession]
      (w, NewClientTracker (Some c))"
  obtain w3 t3 where s3: "?s3 = (w3, t3)" by (cases ?s3)
  from three_events [of w c, unfolded s3]
  have c3: "clientCount t3 = - 1" and k3: "checker t3 \<noteq> None"
    and l3: "calls w3 = calls w @ [CallStart, CallStop]" by simp_all
  have split: "sessionHooks [RegisterSession, UnregisterSession, UnregisterSession, RegisterSession]
      (w, NewClientTracker (Some c)) = OnClientConnected ?s3" by simp
  show ?thesis
    unfolding split s3
    using OnClientConnected_count [of w3 t3] OnClientConnected_calls [of w3 t3]
    by (simp add: c3 k3 l3)
qed


lemma example_calls: "calls exampleWorld = []"
  by (simp add: exampleWorld_def worldOf_def)

text \<open>
  Claim C2, as the specification states it, does not hold: nothing floors the client
  count at 0. After a registration and two unregistrations the count is -1 (\<open>Start\<close>
  and \<open>Stop\<close> have each been called once); one more registration brings it to 0, not
  to 1, and \<open>Start\<close> is not called.
\<close>

theorem client_count_counterexample:
  "GetClientCount (snd (sessionHooks [RegisterSession, UnregisterSession, UnregisterSession]
      (exampleWorld, NewClientTracker (Some exampleChecker)))) = - 1 \<and>
   calls (fst (sessionHooks [RegisterSession, UnregisterSession, UnregisterSession]
      (exampleWorld, NewClientTracker (Some exampleChecker)))) = [CallStart, CallStop] \<and>
   GetClientCount (snd (sessionHooks
      [RegisterSession, UnregisterSession, UnregisterSession, RegisterSession]
      (exampleWorld, NewClientTracker (Some exampleChecker)))) = 0 \<and>
   calls (fst (sessionHooks
      [RegisterSession, UnregisterSession, UnregisterSession, RegisterSession]
      (exampleWorld, NewClientTracker (Some exampleChecker)))) = [CallStart, CallStop]"
  using three_events [of exampleWorld exampleChecker] four_events [of exampleWorld exampleChecker]
  unfolding GetClientCount_def by (simp only: example_calls append_Nil) simp

text \<open>
  Claim C2, amended. The client count is a signed 32-bit number that every
  registration increments and every unregistration decrements, with no floor: after
  fewer than \<open>2^31\<close> events on a new tracker it is the number of registrations minus
  the number of unregistrations, so it is not negative exactly as long as no more
  clients have disconnected than connected. An unregistration at count 0 takes the
  count to -1 and does not call \<open>Stop\<close>: after a registration and two
  unregistrations the count is -1, with \<open>Start\<close> called once and \<open>Stop\<close> called
  once, and a further registration brings the count to 0 without calling \<open>Start\<close>.
\<close>

theorem client_count_not_floored:
  "(length es < 2 ^ 31 \<longrightarrow>
      GetClientCount (snd (sessionHooks es (w, NewClientTracker chk))) =
        int (count_list es RegisterSession) - int (count_list es UnregisterSession)) \<and>
   GetClientCount (snd (sessionHooks [RegisterSession, UnregisterSession, UnregisterSession]
      (w, NewClientTracker (Some c)))) = - 1 \<and>
   calls (fst (sessionHooks [RegisterSession, UnregisterSession, UnregisterSession]
      (w, NewClientTracker (Some c)))) = calls w @ [CallStart, CallStop] \<and>
   GetClientCount (snd (sessionHooks
      [RegisterSession, UnregisterSession, UnregisterSession, RegisterSession]
      (w, NewClientTracker (Some c)))) = 0 \<and>
   calls (fst (sessionHooks
      [RegisterSession, UnregisterSession, UnregisterSession, RegisterSession]
      (w, NewClientTracker (Some c)))) = calls w @ [CallStart, CallStop]"
proof (intro conjI impI)
  assume "length es < 2 ^ 31"
  then show "GetClientCount (snd (sessionHooks es (w, NewClientTracker chk))) =
        int (count_list es RegisterSession) - int (count_list es UnregisterSession)"
    by (rule sessionHooks_GetClientCount)
next
  show "GetClientCount (snd (sessionHooks [RegisterSession, UnregisterSession, UnregisterSession]
      (w, NewClientTracker (Some c)))) = - 1"
    unfolding GetClientCount_def using three_events [of w c] by (simp only:) simp
next
  show "calls (fst (sessionHooks [RegisterSession, UnregisterSession, UnregisterSession]
      (w, NewClientTracker (Some c)))) = calls w @ [CallStart, CallStop]"
    using three_events [of w c] by (elim conjE)
next
  show "GetClientCount (snd (sessionHooks
      [RegisterSession, UnregisterSession, UnregisterSession, RegisterSession]
      (w, NewClientTracker (Some c)))) = 0"
    unfolding GetClientCount_def using four_events [of w c] by (simp only:) simp
next
  show "calls (fst (sessionHooks
      [RegisterSession, UnregisterSession, UnregisterSession, RegisterSession]
      (w, NewClientTracker (Some c)))) = calls w @ [CallStart, CallStop]"
    using four_events [of w c] by (elim conjE)
qed

theorem client_count_not_floored_witness:
  "length [RegisterSession, UnregisterSession, UnregisterSession] < (2::nat) ^ 31 \<and>
   int (count_list [RegisterSession, UnregisterSession, UnregisterSession] RegisterSession) -
     int (count_list [RegisterSession, UnregisterSession, UnregisterSession] UnregisterSession) = - 1 \<and>
   GetClientCount (snd (sessionHooks [RegisterSession, UnregisterSession, UnregisterSession]
      (exampleWorld, NewClientTracker (Some exampleChecker)))) =
     int (count_list [RegisterSession, UnregisterSession, UnregisterSession] RegisterSession) -
     int (count_list [RegisterSession, UnregisterSession, UnregisterSession] UnregisterSession)"
proof -
  let ?es = "[RegisterSession, UnregisterSession, UnregisterSession]"
  have l: "length ?es < (2::nat) ^ 31" by simp
  have v: "int (count_list ?es RegisterSession) - int (count_list ?es UnregisterSession) = - 1"
    by simp
  from client_count_not_floored [where es = ?es and w = exampleWorld and chk = "Some exampleChecker"
      and c = exampleChecker]
  have "length ?es < 2 ^ 31 \<longrightarrow>
      GetClientCount (snd (sessionHooks ?es (exampleWorld, NewClientTracker (Some exampleChecker)))) =
        int (count_list ?es RegisterSession) - int (count_list ?es UnregisterSession)"
    by (elim conjE)
  with l have "GetClientCount (snd (sessionHooks ?es (exampleWorld, NewClientTracker (Some exampleChecker)))) =
        int (count_list ?es RegisterSession) - int (count_list ?es UnregisterSession)"
    by (rule rev_mp)
  with l v show ?thesis by (intro conjI)
qed

end
